theory Spec2Isabelle
  imports Main "HOL-Library.Multiset" "HOL-Library.Sublist"
begin

section \<open>The environment of \<^verbatim>\<open>bin/categorizer.py\<close>\<close>

text \<open>
  The script talks to a POSIX file system through \<^verbatim>\<open>os\<close> and \<^verbatim>\<open>os.path\<close>, and renders
  timestamps with \<^verbatim>\<open>datetime.strftime\<close>. The file system is a flat store from resolved
  paths (lists of components below the root) to nodes. A node is a regular file with its
  last-modified time, or a directory with its last-modified time and the names of its
  entries in the order \<^verbatim>\<open>os.listdir\<close> enumerates them. Symbolic links, special files and
  permissions and limits on the length of a name are not modelled. Timestamps are opaque:
  they are only handed from \<^verbatim>\<open>os.path.getmtime\<close> to \<^verbatim>\<open>strftime\<close>. The field \<open>clock\<close> is
  the time the system stamps on a directory whose entries change.

  \<open>SystemExit\<close> is what \<^verbatim>\<open>exit\<close> raises, \<open>OSError\<close> stands for every failure of a call to
  the file system, and \<open>ValueError\<close> for the failure to render a timestamp (Python raises
  \<^verbatim>\<open>ValueError\<close>, or \<^verbatim>\<open>OverflowError\<close> for some platforms and values, when the timestamp
  lies outside the years 1 to 9999).
\<close>

type_synonym path = "string list"

datatype node = File int | Dir int "string list"

record fsys =
  nodes :: "path \<Rightarrow> node option"
  cwd :: path
  clock :: int

datatype exc = SystemExit nat | OSError | ValueError

datatype event = Print string | Mkdir string | Rename string string

fun is_print :: "event \<Rightarrow> bool" where
  "is_print (Print _) = True"
| "is_print _ = False"

fun is_rename :: "event \<Rightarrow> bool" where
  "is_rename (Rename _ _) = True"
| "is_rename _ = False"

fun is_mutation :: "event \<Rightarrow> bool" where
  "is_mutation (Print _) = False"
| "is_mutation _ = True"

subsection \<open>Path strings\<close>

text \<open>\<^verbatim>\<open>posixpath.join(a, b)\<close>; with three arguments the join is iterated from the left.\<close>

definition path_join :: "string \<Rightarrow> string \<Rightarrow> string" where
  "path_join a b =
     (if b \<noteq> [] \<and> hd b = CHR ''/'' then b
      else if a = [] \<or> last a = CHR ''/'' then a @ b
      else a @ CHR ''/'' # b)"

text \<open>The components of a path string, as \<^verbatim>\<open>s.split('/')\<close> gives them.\<close>

fun split_path :: "string \<Rightarrow> string list" where
  "split_path [] = [[]]"
| "split_path (c # cs) =
     (if c = CHR ''/'' then [] # split_path cs
      else (case split_path cs of [] \<Rightarrow> [[c]] | x # xs \<Rightarrow> (c # x) # xs))"

text \<open>
  Path resolution walks the components from the starting directory. Every component,
  also an empty one or \<^verbatim>\<open>.\<close>, is looked up in a directory; \<^verbatim>\<open>..\<close> goes to the parent
  (the root is its own parent). The last component may name a node that does not exist.
\<close>

fun walk :: "(path \<Rightarrow> node option) \<Rightarrow> path \<Rightarrow> string list \<Rightarrow> path option" where
  "walk ns cur [] = Some cur"
| "walk ns cur (c # cs) =
     (case ns cur of
        Some (Dir _ _) \<Rightarrow>
          (if c = [] \<or> c = ''.'' then walk ns cur cs
           else if c = ''..'' then walk ns (butlast cur) cs
           else walk ns (cur @ [c]) cs)
      | _ \<Rightarrow> None)"

definition resolve :: "fsys \<Rightarrow> string \<Rightarrow> path option" where
  "resolve fs s =
     (if s = [] then None
      else walk (nodes fs) (if hd s = CHR ''/'' then [] else cwd fs) (split_path s))"

definition lookup :: "fsys \<Rightarrow> string \<Rightarrow> node option" where
  "lookup fs s = (case resolve fs s of None \<Rightarrow> None | Some p \<Rightarrow> nodes fs p)"

text \<open>A name that can stand for one entry of a directory.\<close>

definition valid_name :: "string \<Rightarrow> bool" where
  "valid_name n = (n \<noteq> [] \<and> CHR ''/'' \<notin> set n \<and> n \<noteq> ''.'' \<and> n \<noteq> ''..'')"

fun is_file :: "node option \<Rightarrow> bool" where
  "is_file (Some (File _)) = True"
| "is_file _ = False"

fun is_dir :: "node option \<Rightarrow> bool" where
  "is_dir (Some (Dir _ _)) = True"
| "is_dir _ = False"

text \<open>In a file system every node but the root lies in a directory.\<close>

definition parent_closed :: "(path \<Rightarrow> node option) \<Rightarrow> bool" where
  "parent_closed ns = (\<forall>p n. ns (p @ [n]) \<noteq> None \<longrightarrow> is_dir (ns p))"

text \<open>
  How one node may differ between two moments of a run, apart from the files the run
  moves: a directory stays a directory, a regular file stays as it is, and no regular
  file appears.
\<close>

definition grows :: "node option \<Rightarrow> node option \<Rightarrow> bool" where
  "grows a b = ((is_dir a \<longrightarrow> is_dir b) \<and> (is_file a \<longrightarrow> b = a) \<and> (a = None \<longrightarrow> \<not> is_file b))"

subsection \<open>Queries\<close>

definition path_exists :: "fsys \<Rightarrow> string \<Rightarrow> bool" where
  "path_exists fs s = (lookup fs s \<noteq> None)"

definition path_isfile :: "fsys \<Rightarrow> string \<Rightarrow> bool" where
  "path_isfile fs s = (case lookup fs s of Some (File _) \<Rightarrow> True | _ \<Rightarrow> False)"

definition path_isdir :: "fsys \<Rightarrow> string \<Rightarrow> bool" where
  "path_isdir fs s = (case lookup fs s of Some (Dir _ _) \<Rightarrow> True | _ \<Rightarrow> False)"

definition listdir :: "fsys \<Rightarrow> string \<Rightarrow> exc + string list" where
  "listdir fs s = (case lookup fs s of Some (Dir _ es) \<Rightarrow> Inr es | _ \<Rightarrow> Inl OSError)"

definition getmtime :: "fsys \<Rightarrow> string \<Rightarrow> exc + int" where
  "getmtime fs s =
     (case lookup fs s of
        None \<Rightarrow> Inl OSError
      | Some (File t) \<Rightarrow> Inr t
      | Some (Dir t _) \<Rightarrow> Inr t)"

subsection \<open>Mutations\<close>

text \<open>Adding and removing the entry of a path in the directory that holds it.\<close>

definition add_entry :: "int \<Rightarrow> path \<Rightarrow> (path \<Rightarrow> node option) \<Rightarrow> (path \<Rightarrow> node option)" where
  "add_entry now p ns =
     (case ns (butlast p) of
        Some (Dir _ es) \<Rightarrow>
          ns(butlast p \<mapsto> Dir now (if last p \<in> set es then es else es @ [last p]))
      | _ \<Rightarrow> ns)"

definition del_entry :: "int \<Rightarrow> path \<Rightarrow> (path \<Rightarrow> node option) \<Rightarrow> (path \<Rightarrow> node option)" where
  "del_entry now p ns =
     (case ns (butlast p) of
        Some (Dir _ es) \<Rightarrow> ns(butlast p \<mapsto> Dir now (removeAll (last p) es))
      | _ \<Rightarrow> ns)"

text \<open>Moving the node at \<open>p\<close>, with everything below it, to \<open>q\<close>.\<close>

definition move_tree :: "path \<Rightarrow> path \<Rightarrow> (path \<Rightarrow> node option) \<Rightarrow> (path \<Rightarrow> node option)" where
  "move_tree p q ns =
     (\<lambda>x. if prefix q x then ns (p @ drop (length q) x)
          else if prefix p x then None
          else ns x)"

text \<open>
  \<^verbatim>\<open>os.mkdir\<close>: the path must not exist and its parent must be a directory. Slashes at
  the end of the path do not count, as in \<^verbatim>\<open>mkdir(2)\<close>.
\<close>

definition strip_slashes :: "string \<Rightarrow> string" where
  "strip_slashes s = rev (dropWhile (\<lambda>c. c = CHR ''/'') (rev s))"

definition os_mkdir :: "string \<Rightarrow> fsys \<Rightarrow> exc + fsys" where
  "os_mkdir s fs =
     (case resolve fs (strip_slashes s) of
        None \<Rightarrow> Inl OSError
      | Some p \<Rightarrow>
          (if p = [] \<or> nodes fs p \<noteq> None then Inl OSError
           else (case nodes fs (butlast p) of
                   Some (Dir _ _) \<Rightarrow>
                     Inr (fs\<lparr>nodes := add_entry (clock fs) p ((nodes fs)(p \<mapsto> Dir (clock fs) []))\<rparr>)
                 | _ \<Rightarrow> Inl OSError)))"

text \<open>
  \<^verbatim>\<open>os.rename\<close>, as \<^verbatim>\<open>rename(2)\<close>: the source must exist. Renaming a path to itself does
  nothing. A regular file replaces a regular file at the destination and fails on a
  directory there. A directory replaces an empty directory only, fails on a regular
  file, and cannot move below itself.
\<close>

definition os_rename :: "string \<Rightarrow> string \<Rightarrow> fsys \<Rightarrow> exc + fsys" where
  "os_rename src dst fs =
     (case (resolve fs src, resolve fs dst) of
        (Some p, Some q) \<Rightarrow>
          (case nodes fs p of
             None \<Rightarrow> Inl OSError
           | Some n \<Rightarrow>
               (if p = q then Inr fs
                else if p = [] \<or> q = [] \<or> prefix p q then Inl OSError
                else if (case nodes fs (butlast q) of Some (Dir _ _) \<Rightarrow> False | _ \<Rightarrow> True)
                  then Inl OSError
                else if (case (n, nodes fs q) of
                           (_, None) \<Rightarrow> True
                         | (File _, Some (File _)) \<Rightarrow> True
                         | (Dir _ _, Some (Dir _ [])) \<Rightarrow> True
                         | _ \<Rightarrow> False)
                  then Inr (fs\<lparr>nodes :=
                              add_entry (clock fs) q
                                (move_tree p q (del_entry (clock fs) p (nodes fs)))\<rparr>)
                else Inl OSError))
      | _ \<Rightarrow> Inl OSError)"

section \<open>The script\<close>

text \<open>A Python \<^verbatim>\<open>dict\<close> keeps its keys in insertion order; storing under a key that is
  present keeps the key's place.\<close>

type_synonym grouping = "(string \<times> string list) list"

fun dict_get :: "('k \<times> 'v) list \<Rightarrow> 'k \<Rightarrow> 'v \<Rightarrow> 'v" where
  "dict_get [] k d = d"
| "dict_get ((k', v) # kvs) k d = (if k' = k then v else dict_get kvs k d)"

fun dict_set :: "('k \<times> 'v) list \<Rightarrow> 'k \<Rightarrow> 'v \<Rightarrow> ('k \<times> 'v) list" where
  "dict_set [] k v = [(k, v)]"
| "dict_set ((k', v') # kvs) k v =
     (if k' = k then (k, v) # kvs else (k', v') # dict_set kvs k v)"

definition startswith :: "string \<Rightarrow> string \<Rightarrow> bool" where
  "startswith s p = prefix p s"

text \<open>\<^verbatim>\<open>get_file_list\<close>: the diagnostics it prints, and the list it returns or the
  exception it ends with.\<close>

definition get_file_list :: "fsys \<Rightarrow> string \<Rightarrow> event list \<times> (exc + string list)" where
  "get_file_list fs pwd =
     (if \<not> path_exists fs pwd then
        ([Print (''No such folder: '' @ pwd)], Inl (SystemExit 1))
      else if path_isfile fs pwd then
        ([Print (pwd @ '' is a file.'')], Inl (SystemExit 1))
      else
        ([], case listdir fs pwd of
               Inl e \<Rightarrow> Inl e
             | Inr names \<Rightarrow>
                 Inr (filter (\<lambda>f. path_isfile fs (path_join pwd f) \<and>
                                  f \<notin> set [''desktop.ini'', ''thumbs.db'', ''.DS_Store''] \<and>
                                  \<not> startswith f ''.'') names)))"

text \<open>\<^verbatim>\<open>get_file_time_str\<close>; \<open>strftime\<close> stands for
  \<^verbatim>\<open>datetime.fromtimestamp(t).strftime(date_format)\<close> in the local time zone, which
  gives a string or raises (\<open>None\<close>).\<close>

definition get_file_time_str ::
  "(int \<Rightarrow> string \<Rightarrow> string option) \<Rightarrow> fsys \<Rightarrow> string \<Rightarrow> string \<Rightarrow> string
     \<Rightarrow> exc + string" where
  "get_file_time_str strftime fs pwd file_name date_format =
     (case getmtime fs (path_join pwd file_name) of
        Inl e \<Rightarrow> Inl e
      | Inr t \<Rightarrow>
          (case strftime t date_format of
             None \<Rightarrow> Inl ValueError
           | Some time_string \<Rightarrow> Inr time_string))"

text \<open>The loop of \<^verbatim>\<open>group_by_date\<close>, from a given dictionary.\<close>

fun group_loop ::
  "(int \<Rightarrow> string \<Rightarrow> string option) \<Rightarrow> fsys \<Rightarrow> string \<Rightarrow> string \<Rightarrow> string list \<Rightarrow> grouping
     \<Rightarrow> exc + grouping" where
  "group_loop strftime fs pwd date_format [] file_group = Inr file_group"
| "group_loop strftime fs pwd date_format (file # rest) file_group =
     (case get_file_time_str strftime fs pwd file date_format of
        Inl e \<Rightarrow> Inl e
      | Inr time_string \<Rightarrow>
          group_loop strftime fs pwd date_format rest
            (dict_set file_group time_string (dict_get file_group time_string [] @ [file])))"

definition group_by_date ::
  "(int \<Rightarrow> string \<Rightarrow> string option) \<Rightarrow> fsys \<Rightarrow> string \<Rightarrow> string list \<Rightarrow> string \<Rightarrow> exc + grouping" where
  "group_by_date strftime fs pwd file_list date_format =
     group_loop strftime fs pwd date_format file_list []"

text \<open>\<^verbatim>\<open>print_group_info\<close>: one line per \<^verbatim>\<open>print\<close> call.\<close>

fun print_group_info :: "grouping \<Rightarrow> event list" where
  "print_group_info [] = []"
| "print_group_info ((time_string, files) # rest) =
     Print (time_string @ '':'') # map (\<lambda>file. Print (''  - '' @ file)) files
       @ print_group_info rest"

text \<open>
  \<^verbatim>\<open>do_move\<close>: the calls it makes (each recorded when it is made), the file system it
  leaves, and the exception that ended it, if any. An exception leaves the moves made so
  far in place.
\<close>

fun move_files :: "string \<Rightarrow> string \<Rightarrow> string list \<Rightarrow> fsys \<Rightarrow> event list \<times> fsys \<times> exc option" where
  "move_files pwd time_string [] fs = ([], fs, None)"
| "move_files pwd time_string (file # rest) fs =
     (let src = path_join pwd file; dst = path_join (path_join pwd time_string) file in
      case os_rename src dst fs of
        Inl e \<Rightarrow> ([Rename src dst], fs, Some e)
      | Inr fs' \<Rightarrow>
          (case move_files pwd time_string rest fs' of
             (evs, fs'', r) \<Rightarrow> (Rename src dst # evs, fs'', r)))"

definition make_folder :: "string \<Rightarrow> string \<Rightarrow> fsys \<Rightarrow> event list \<times> fsys \<times> exc option" where
  "make_folder pwd time_string fs =
     (if \<not> path_exists fs (path_join pwd time_string) then
        (case os_mkdir (path_join pwd time_string) fs of
           Inl e \<Rightarrow> ([Mkdir (path_join pwd time_string)], fs, Some e)
         | Inr fs' \<Rightarrow> ([Mkdir (path_join pwd time_string)], fs', None))
      else ([], fs, None))"

fun do_move :: "string \<Rightarrow> grouping \<Rightarrow> fsys \<Rightarrow> event list \<times> fsys \<times> exc option" where
  "do_move pwd [] fs = ([], fs, None)"
| "do_move pwd ((time_string, files) # rest) fs =
     (case make_folder pwd time_string fs of
        (evs1, fs1, Some e) \<Rightarrow> (evs1, fs1, Some e)
      | (evs1, fs1, None) \<Rightarrow>
          (case move_files pwd time_string files fs1 of
             (evs2, fs2, Some e) \<Rightarrow> (evs1 @ evs2, fs2, Some e)
           | (evs2, fs2, None) \<Rightarrow>
               (case do_move pwd rest fs2 of
                  (evs3, fs3, r) \<Rightarrow> (evs1 @ evs2 @ evs3, fs3, r))))"

text \<open>The parsed command line.\<close>

record args =
  folder_path :: string
  date_string :: string
  simulation :: bool

text \<open>\<^verbatim>\<open>group_by_date(pwd, get_file_list(pwd), args.date_string)\<close>, which the main block
  evaluates at line 140 and again at line 143.\<close>

definition scan ::
  "(int \<Rightarrow> string \<Rightarrow> string option) \<Rightarrow> args \<Rightarrow> fsys \<Rightarrow> event list \<times> (exc + grouping)" where
  "scan strftime a fs =
     (case get_file_list fs (folder_path a) of
        (evs, Inl e) \<Rightarrow> (evs, Inl e)
      | (evs, Inr file_list) \<Rightarrow>
          (evs, group_by_date strftime fs (folder_path a) file_list (date_string a)))"

text \<open>Line 140: the preview. It returns what it printed and the exception that ended
  it, if any; it makes no call that changes the file system.\<close>

definition preview_pass ::
  "(int \<Rightarrow> string \<Rightarrow> string option) \<Rightarrow> args \<Rightarrow> fsys \<Rightarrow> event list \<times> exc option" where
  "preview_pass strftime a fs =
     (case scan strftime a fs of
        (evs, Inl e) \<Rightarrow> (evs, Some e)
      | (evs, Inr group_info) \<Rightarrow> (evs @ print_group_info group_info, None))"

text \<open>Line 143: the move, on a grouping built from the file system as it is then.\<close>

definition move_pass ::
  "(int \<Rightarrow> string \<Rightarrow> string option) \<Rightarrow> args \<Rightarrow> fsys \<Rightarrow> event list \<times> fsys \<times> exc option" where
  "move_pass strftime a fs =
     (case scan strftime a fs of
        (evs, Inl e) \<Rightarrow> (evs, fs, Some e)
      | (evs, Inr group_info) \<Rightarrow>
          (case do_move (folder_path a) group_info fs of
             (evs', fs', r) \<Rightarrow> (evs @ evs', fs', r)))"

text \<open>
  The main block: the events of the run, the file system it leaves, and the exception
  that ended it (\<open>None\<close> is a normal end, exit status 0). The file system is shared with
  whatever else runs on the machine: \<open>others\<close> is what the others do to it between the
  preview at line 140 and the move at line 143, so the move pass starts from
  \<open>others fs\<close>.
\<close>

definition main_with ::
  "(int \<Rightarrow> string \<Rightarrow> string option) \<Rightarrow> (fsys \<Rightarrow> fsys) \<Rightarrow> args \<Rightarrow> fsys
     \<Rightarrow> event list \<times> fsys \<times> exc option" where
  "main_with strftime others a fs =
     (case preview_pass strftime a fs of
        (out, Some e) \<Rightarrow> (out, fs, Some e)
      | (out, None) \<Rightarrow>
          (if \<not> simulation a then
             (case move_pass strftime a (others fs) of
                (evs, fs', r) \<Rightarrow> (out @ evs, fs', r))
           else (out, fs, None)))"

text \<open>A run during which nothing but the script touches the file system.\<close>

definition main ::
  "(int \<Rightarrow> string \<Rightarrow> string option) \<Rightarrow> args \<Rightarrow> fsys \<Rightarrow> event list \<times> fsys \<times> exc option" where
  "main strftime a fs = main_with strftime (\<lambda>fs. fs) a fs"

subsection \<open>The single-scan variant\<close>

text \<open>
  The design the specification contrasts the script with: the grouping is computed once
  and the same value goes to the reporter and to the mover.
\<close>

definition main_single_scan ::
  "(int \<Rightarrow> string \<Rightarrow> string option) \<Rightarrow> args \<Rightarrow> fsys \<Rightarrow> event list \<times> fsys \<times> exc option" where
  "main_single_scan strftime a fs =
     (case scan strftime a fs of
        (evs, Inl e) \<Rightarrow> (evs, fs, Some e)
      | (evs, Inr group_info) \<Rightarrow>
          (let out = evs @ print_group_info group_info in
           if \<not> simulation a then
             (case do_move (folder_path a) group_info fs of
                (evs', fs', r) \<Rightarrow> (out @ evs', fs', r))
           else (out, fs, None)))"

section \<open>Example inputs\<close>

text \<open>
  A directory \<^verbatim>\<open>d\<close> below the working directory with two regular files, changed in
  January and in February 2024, a hidden file and a subdirectory.
\<close>

definition example_fs :: fsys where
  "example_fs =
     \<lparr>nodes = [[] \<mapsto> Dir 0 [''d''],
               [''d''] \<mapsto> Dir 0 [''a.txt'', ''.hid'', ''b.txt'', ''sub''],
               [''d'', ''a.txt''] \<mapsto> File 1705276800,
               [''d'', ''.hid''] \<mapsto> File 1707955200,
               [''d'', ''b.txt''] \<mapsto> File 1707955200,
               [''d'', ''sub''] \<mapsto> Dir 1707955200 []],
      cwd = [], clock = 1730000000\<rparr>"

text \<open>
  A directory \<^verbatim>\<open>home\<close> with regular files, the three metadata names, a name that
  differs from one of them in case only, a hidden file, and a subdirectory with a file.
\<close>

definition example_mixed :: fsys where
  "example_mixed =
     \<lparr>nodes = [[] \<mapsto> Dir 0 [''home''],
               [''home''] \<mapsto> Dir 0 [''notes.txt'', ''desktop.ini'', ''Thumbs.db'', ''thumbs.db'',
                                    ''.DS_Store'', ''.profile'', ''photos'', ''todo.md''],
               [''home'', ''notes.txt''] \<mapsto> File 1705276800,
               [''home'', ''desktop.ini''] \<mapsto> File 1705276800,
               [''home'', ''Thumbs.db''] \<mapsto> File 1705276800,
               [''home'', ''thumbs.db''] \<mapsto> File 1705276800,
               [''home'', ''.DS_Store''] \<mapsto> File 1705276800,
               [''home'', ''.profile''] \<mapsto> File 1705276800,
               [''home'', ''photos''] \<mapsto> Dir 1705276800 [''cat.jpg''],
               [''home'', ''photos'', ''cat.jpg''] \<mapsto> File 1705276800,
               [''home'', ''todo.md''] \<mapsto> File 1707955200],
      cwd = [''home''], clock = 1730000000\<rparr>"

text \<open>The same directory after something else wrote a file into the subdirectory.\<close>

definition example_fs' :: fsys where
  "example_fs' =
     example_fs\<lparr>nodes := (nodes example_fs)
       ([''d'', ''sub''] \<mapsto> Dir 1730000000 [''c.txt''],
        [''d'', ''sub'', ''c.txt''] \<mapsto> File 1730000000)\<rparr>"

text \<open>The first directory after something else wrote a third file into it.\<close>

definition example_fs_later :: fsys where
  "example_fs_later =
     example_fs\<lparr>nodes := (nodes example_fs)
       ([''d''] \<mapsto> Dir 1730000000 [''a.txt'', ''.hid'', ''b.txt'', ''sub'', ''c.txt''],
        [''d'', ''c.txt''] \<mapsto> File 1707955200)\<rparr>"

text \<open>The first directory with one more file, last changed in the year 10000.\<close>

definition example_fs_far :: fsys where
  "example_fs_far =
     example_fs\<lparr>nodes := (nodes example_fs)
       ([''d''] \<mapsto> Dir 1730000000 [''a.txt'', ''.hid'', ''b.txt'', ''sub'', ''far.txt''],
        [''d'', ''far.txt''] \<mapsto> File 253402300800)\<rparr>"

text \<open>
  A rendering that agrees with \<^verbatim>\<open>datetime.fromtimestamp(t).strftime(date_format)\<close> in
  UTC on the timestamps above for the pattern \<^verbatim>\<open>%Y%m\<close>, and for a pattern without
  directives on every timestamp: outside the years 1 to 9999 it raises.
\<close>

definition example_strftime :: "int \<Rightarrow> string \<Rightarrow> string option" where
  "example_strftime t date_format =
     (if t < - 62135596800 \<or> 253402300800 \<le> t then None
      else if date_format = ''%Y%m'' then
        Some (if t < 1706745600 then ''202401'' else ''202402'')
      else Some date_format)"

definition example_args :: args where
  "example_args = \<lparr>folder_path = ''d'', date_string = ''%Y%m'', simulation = False\<rparr>"

section \<open>The dictionary and the grouping loop\<close>

lemma dict_get_dict_set:
  "dict_get (dict_set d k v) k' x = (if k' = k then v else dict_get d k' x)"
  by (induction d) auto

lemma keys_dict_set:
  "map fst (dict_set d k v) = (if k \<in> fst ` set d then map fst d else map fst d @ [k])"
  by (induction d) force+

lemma distinct_dict_set:
  "distinct (map fst d) \<Longrightarrow> distinct (map fst (dict_set d k v))"
  by (simp add: keys_dict_set)

lemma mset_dict_set_append:
  "mset (concat (map snd (dict_set d k (dict_get d k [] @ [f])))) =
     mset (concat (map snd d)) + {#f#}"
  by (induction d) auto

lemma dict_get_member:
  "distinct (map fst d) \<Longrightarrow> (k, v) \<in> set d \<Longrightarrow> dict_get d k x = v"
  by (induction d) (auto simp: image_iff rev_image_eqI)

lemma remdups_skip:
  "k \<in> set ys \<Longrightarrow> remdups (xs @ k # ys) = remdups (xs @ ys)"
  by (induction xs) auto

lemma group_loop_distinct:
  "group_loop S fs pwd fmt fl acc = Inr g \<Longrightarrow> distinct (map fst acc) \<Longrightarrow> distinct (map fst g)"
  by (induction fl arbitrary: acc) (auto split: sum.splits simp: distinct_dict_set)

lemma group_loop_get:
  "group_loop S fs pwd fmt fl acc = Inr g \<Longrightarrow>
   dict_get g k [] = dict_get acc k [] @ filter (\<lambda>f. get_file_time_str S fs pwd f fmt = Inr k) fl"
  by (induction fl arbitrary: acc) (auto split: sum.splits simp: dict_get_dict_set)

lemma group_loop_mset:
  "group_loop S fs pwd fmt fl acc = Inr g \<Longrightarrow>
   mset (concat (map snd g)) = mset (concat (map snd acc)) + mset fl"
  by (induction fl arbitrary: acc) (auto split: sum.splits simp: mset_dict_set_append)

lemma first_occurrences_distinct:
  "distinct xs \<Longrightarrow> rev (remdups (rev xs)) = xs"
  by (simp add: distinct_remdups_id)

lemma group_loop_keys:
  "group_loop S fs pwd fmt fl acc = Inr g \<Longrightarrow> distinct (map fst acc) \<Longrightarrow>
   map Inr (map fst g) =
     rev (remdups (rev (map Inr (map fst acc) @ map (\<lambda>f. get_file_time_str S fs pwd f fmt) fl)))"
proof (induction fl arbitrary: acc)
  case Nil
  then have "distinct (map Inr (map fst acc))"
    by (subst distinct_map) (simp add: inj_on_def)
  then have "map Inr (map fst acc) = rev (remdups (rev (map Inr (map fst acc))))"
    by (rule first_occurrences_distinct [symmetric])
  moreover from Nil.prems(1) have "g = acc" by simp
  ultimately show ?case by (simp only: list.map append_Nil2)
next
  case (Cons f fl)
  let ?key = "\<lambda>f. get_file_time_str S fs pwd f fmt"
  from Cons.prems(1) obtain k where k: "?key f = Inr k"
    by (auto split: sum.splits)
  let ?acc = "dict_set acc k (dict_get acc k [] @ [f])"
  from Cons.prems(1) k have run: "group_loop S fs pwd fmt fl ?acc = Inr g"
    by simp
  have "distinct (map fst ?acc)"
    using Cons.prems(2) by (rule distinct_dict_set)
  with run have IH: "map Inr (map fst g) =
      rev (remdups (rev (map Inr (map fst ?acc) @ map ?key fl)))"
    by (rule Cons.IH)
  show ?case
  proof (cases "k \<in> fst ` set acc")
    case True
    then have "Inr k \<in> set (rev (map Inr (map fst acc)))"
      by auto
    then have "remdups (rev (map ?key fl) @ Inr k # rev (map Inr (map fst acc))) =
        remdups (rev (map ?key fl) @ rev (map Inr (map fst acc)))"
      by (rule remdups_skip)
    with True IH k show ?thesis
      by (simp add: keys_dict_set)
  next
    case False
    with IH k show ?thesis
      by (simp add: keys_dict_set)
  qed
qed

lemma group_loop_defined:
  "(\<exists>g. group_loop S fs pwd fmt fl acc = Inr g) \<longleftrightarrow>
   (\<forall>f\<in>set fl. \<exists>k. get_file_time_str S fs pwd f fmt = Inr k)"
  by (induction fl arbitrary: acc) (auto split: sum.splits)

lemma group_loop_error:
  "group_loop S fs pwd fmt fl acc = Inl e \<Longrightarrow>
   \<exists>f\<in>set fl. get_file_time_str S fs pwd f fmt = Inl e"
  by (induction fl arbitrary: acc) (auto split: sum.splits)

lemma snd_dict_set:
  "[] \<notin> snd ` set d \<Longrightarrow> v \<noteq> [] \<Longrightarrow> [] \<notin> snd ` set (dict_set d k v)"
  by (induction d) (fastforce split: if_splits)+

lemma group_loop_nonempty:
  "group_loop S fs pwd fmt fl acc = Inr g \<Longrightarrow> [] \<notin> snd ` set acc \<Longrightarrow> [] \<notin> snd ` set g"
proof (induction fl arbitrary: acc)
  case Nil
  then show ?case by simp
next
  case (Cons f fl)
  then obtain k where k: "get_file_time_str S fs pwd f fmt = Inr k"
    by (auto split: sum.splits)
  with Cons.prems(1) have "group_loop S fs pwd fmt fl (dict_set acc k (dict_get acc k [] @ [f])) = Inr g"
    by simp
  moreover have "[] \<notin> snd ` set (dict_set acc k (dict_get acc k [] @ [f]))"
    using Cons.prems(2) by (intro snd_dict_set) simp_all
  ultimately show ?case by (rule Cons.IH)
qed

section \<open>The example, evaluated\<close>

lemmas fs_eval = lookup_def resolve_def path_join_def path_exists_def path_isfile_def path_isdir_def
  listdir_def getmtime_def startswith_def

lemma example_lookup_d: "lookup example_fs ''d'' = Some (Dir 0 [''a.txt'', ''.hid'', ''b.txt'', ''sub''])"
  by (simp add: fs_eval example_fs_def)

lemma example_lookup_a: "lookup example_fs (path_join ''d'' ''a.txt'') = Some (File 1705276800)"
  by (simp add: fs_eval example_fs_def)

lemma example_lookup_b: "lookup example_fs (path_join ''d'' ''b.txt'') = Some (File 1707955200)"
  by (simp add: fs_eval example_fs_def)

lemma example_files: "get_file_list example_fs ''d'' = ([], Inr [''a.txt'', ''b.txt''])"
  by (simp add: get_file_list_def fs_eval example_fs_def)

lemma example_grouping:
  "group_by_date example_strftime example_fs ''d'' [''a.txt'', ''b.txt''] ''%Y%m'' =
     Inr [(''202401'', [''a.txt'']), (''202402'', [''b.txt''])]"
  by (simp add: group_by_date_def get_file_time_str_def getmtime_def example_lookup_a example_lookup_b example_strftime_def)

lemma example_scan:
  "scan example_strftime example_args example_fs =
     ([], Inr [(''202401'', [''a.txt'']), (''202402'', [''b.txt''])])"
  by (simp add: scan_def example_args_def example_files example_grouping)


section \<open>The grouper\<close>

lemma group_by_date_members:
  assumes "group_by_date S fs pwd fl fmt = Inr g" and "(k, files) \<in> set g"
  shows "files = filter (\<lambda>f. get_file_time_str S fs pwd f fmt = Inr k) fl"
proof -
  from assms(1) have run: "group_loop S fs pwd fmt fl [] = Inr g"
    by (simp add: group_by_date_def)
  then have "distinct (map fst g)"
    by (rule group_loop_distinct) simp
  with assms(2) have "dict_get g k [] = files"
    by (intro dict_get_member)
  with group_loop_get [OF run, of k] show ?thesis
    by simp
qed

lemma get_file_time_str_error:
  "get_file_time_str S fs pwd f fmt = Inl e \<Longrightarrow>
   e = OSError \<and> \<not> path_exists fs (path_join pwd f) \<or>
   e = ValueError \<and> (\<exists>t. getmtime fs (path_join pwd f) = Inr t \<and> S t fmt = None)"
  by (auto simp: get_file_time_str_def getmtime_def path_exists_def
           split: sum.splits option.splits node.splits)

text \<open>
  C1. \<^verbatim>\<open>group_by_date\<close> raises only when some name of the input list does not exist
  below the directory (\<open>OSError\<close>) or has a timestamp that cannot be rendered
  (\<open>ValueError\<close>). Otherwise it returns a grouping; the members of its groups, taken
  together, are the input list as a multiset, and every input name is a member of
  exactly one group.
\<close>

theorem group_by_date_partition:
  "case group_by_date S fs pwd fl fmt of
     Inl e \<Rightarrow>
       \<exists>f\<in>set fl.
         e = OSError \<and> \<not> path_exists fs (path_join pwd f) \<or>
         e = ValueError \<and> (\<exists>t. getmtime fs (path_join pwd f) = Inr t \<and> S t fmt = None)
   | Inr g \<Rightarrow>
       mset (concat (map snd g)) = mset fl \<and>
       (\<forall>f\<in>set fl. \<exists>!i. i < length g \<and> f \<in> set (snd (g ! i)))"
proof (cases "group_by_date S fs pwd fl fmt")
  case (Inl e)
  then have "group_loop S fs pwd fmt fl [] = Inl e"
    by (simp add: group_by_date_def)
  then obtain f where "f \<in> set fl" and "get_file_time_str S fs pwd f fmt = Inl e"
    by (blast dest: group_loop_error)
  then have "\<exists>f\<in>set fl.
      e = OSError \<and> \<not> path_exists fs (path_join pwd f) \<or>
      e = ValueError \<and> (\<exists>t. getmtime fs (path_join pwd f) = Inr t \<and> S t fmt = None)"
    by (blast dest: get_file_time_str_error)
  with Inl show ?thesis by simp
next
  case (Inr g)
  then have run: "group_loop S fs pwd fmt fl [] = Inr g"
    by (simp add: group_by_date_def)
  have all: "mset (concat (map snd g)) = mset fl"
    using group_loop_mset [OF run] by simp
  have keys: "distinct (map fst g)"
    using run by (rule group_loop_distinct) simp
  have one: "\<exists>!i. i < length g \<and> f \<in> set (snd (g ! i))" if f: "f \<in> set fl" for f
  proof -
    from f all have "f \<in> set (concat (map snd g))"
      by (metis set_mset_mset)
    then obtain kv where "kv \<in> set g" and "f \<in> set (snd kv)"
      by auto
    then obtain i where i: "i < length g" "f \<in> set (snd (g ! i))"
      by (auto simp: in_set_conv_nth)
    have "j = i" if j: "j < length g" "f \<in> set (snd (g ! j))" for j
    proof -
      have "(fst (g ! n), snd (g ! n)) \<in> set g" if "n < length g" for n
        using that by simp
      then have "snd (g ! n) = filter (\<lambda>f. get_file_time_str S fs pwd f fmt = Inr (fst (g ! n))) fl"
        if "n < length g" for n
        using that Inr by (intro group_by_date_members)
      with i j have "get_file_time_str S fs pwd f fmt = Inr (fst (g ! i))"
        and "get_file_time_str S fs pwd f fmt = Inr (fst (g ! j))"
        by (metis (mono_tags, lifting) mem_Collect_eq set_filter)+
      then have "map fst g ! j = map fst g ! i"
        using i j by simp
      moreover have "j < length (map fst g)" and "i < length (map fst g)"
        using i j by simp_all
      ultimately show ?thesis
        using keys by (simp only: nth_eq_iff_index_eq)
    qed
    with i show ?thesis by blast
  qed
  from Inr all one show ?thesis by simp
qed

lemma example_far_grouping:
  "group_by_date example_strftime example_fs_far ''d'' [''a.txt'', ''far.txt''] ''%Y%m'' =
     Inl ValueError"
  "getmtime example_fs_far (path_join ''d'' ''far.txt'') = Inr 253402300800"
  "example_strftime 253402300800 ''%Y%m'' = None"
  by (simp_all add: group_by_date_def get_file_time_str_def fs_eval example_fs_far_def
        example_fs_def example_strftime_def)

lemma example_gone_grouping:
  "group_by_date example_strftime example_fs ''d'' [''a.txt'', ''gone.txt''] ''%Y%m'' =
     Inl OSError"
  "\<not> path_exists example_fs (path_join ''d'' ''gone.txt'')"
  by (simp_all add: group_by_date_def get_file_time_str_def fs_eval example_fs_def
        example_strftime_def)

theorem group_by_date_partition_witness:
  "group_by_date example_strftime example_fs ''d'' [''a.txt'', ''b.txt''] ''%Y%m'' =
     Inr [(''202401'', [''a.txt'']), (''202402'', [''b.txt''])] \<and>
   mset (concat (map snd [(''202401'', [''a.txt'']), (''202402'', [''b.txt''])])) =
     mset [''a.txt'', ''b.txt''] \<and>
   (\<exists>!i. i < length [(''202401'', [''a.txt'']), (''202402'', [''b.txt''])] \<and>
      ''a.txt'' \<in> set (snd ([(''202401'', [''a.txt'']), (''202402'', [''b.txt''])] ! i))) \<and>
   (\<exists>!i. i < length [(''202401'', [''a.txt'']), (''202402'', [''b.txt''])] \<and>
      ''b.txt'' \<in> set (snd ([(''202401'', [''a.txt'']), (''202402'', [''b.txt''])] ! i))) \<and>
   group_by_date example_strftime example_fs_far ''d'' [''a.txt'', ''far.txt''] ''%Y%m'' =
     Inl ValueError \<and>
   getmtime example_fs_far (path_join ''d'' ''far.txt'') = Inr 253402300800 \<and>
   example_strftime 253402300800 ''%Y%m'' = None \<and>
   group_by_date example_strftime example_fs ''d'' [''a.txt'', ''gone.txt''] ''%Y%m'' =
     Inl OSError \<and>
   \<not> path_exists example_fs (path_join ''d'' ''gone.txt'')"
proof -
  note group_by_date_partition [where S = example_strftime and fs = example_fs
      and pwd = "''d''" and fl = "[''a.txt'', ''b.txt'']" and fmt = "''%Y%m''"]
  then have "mset (concat (map snd [(''202401'', [''a.txt'']), (''202402'', [''b.txt''])])) =
     mset [''a.txt'', ''b.txt''] \<and>
   (\<exists>!i. i < length [(''202401'', [''a.txt'']), (''202402'', [''b.txt''])] \<and>
      ''a.txt'' \<in> set (snd ([(''202401'', [''a.txt'']), (''202402'', [''b.txt''])] ! i))) \<and>
   (\<exists>!i. i < length [(''202401'', [''a.txt'']), (''202402'', [''b.txt''])] \<and>
      ''b.txt'' \<in> set (snd ([(''202401'', [''a.txt'']), (''202402'', [''b.txt''])] ! i)))"
    unfolding example_grouping sum.case by simp
  with example_grouping example_far_grouping example_gone_grouping show ?thesis
    by (intro conjI) (erule conjE | assumption)+
qed

lemma example_lookup_hid: "lookup example_fs (path_join ''d'' ''.hid'') = Some (File 1707955200)"
  by (simp add: fs_eval example_fs_def)

lemma example_time_strs:
  "get_file_time_str example_strftime example_fs ''d'' ''a.txt'' ''%Y%m'' = Inr ''202401''"
  "get_file_time_str example_strftime example_fs ''d'' ''b.txt'' ''%Y%m'' = Inr ''202402''"
  "get_file_time_str example_strftime example_fs ''d'' ''.hid'' ''%Y%m'' = Inr ''202402''"
  by (simp_all add: get_file_time_str_def getmtime_def example_lookup_a example_lookup_b
        example_lookup_hid example_strftime_def)

lemma example_grouping_unsorted:
  "group_by_date example_strftime example_fs ''d'' [''b.txt'', ''a.txt'', ''.hid''] ''%Y%m'' =
     Inr [(''202402'', [''b.txt'', ''.hid'']), (''202401'', [''a.txt''])]"
  by (simp add: group_by_date_def example_time_strs)

text \<open>
  C6. In a returned grouping the keys are pairwise different and stand in the order of
  their first occurrence in the scan (\<open>remdups\<close> keeps the last copy of each element, so
  between the two reversals it keeps the first); the members of a group are the input
  names with that key, in input order.
\<close>

theorem group_by_date_order:
  "group_by_date S fs pwd fl fmt = Inr g \<Longrightarrow>
   distinct (map fst g) \<and>
   map Inr (map fst g) = rev (remdups (rev (map (\<lambda>f. get_file_time_str S fs pwd f fmt) fl))) \<and>
   (\<forall>(k, files)\<in>set g. files = filter (\<lambda>f. get_file_time_str S fs pwd f fmt = Inr k) fl)"
proof (intro conjI)
  assume res: "group_by_date S fs pwd fl fmt = Inr g"
  then have run: "group_loop S fs pwd fmt fl [] = Inr g"
    by (simp add: group_by_date_def)
  show "distinct (map fst g)"
    using run by (rule group_loop_distinct) simp
  show "map Inr (map fst g) = rev (remdups (rev (map (\<lambda>f. get_file_time_str S fs pwd f fmt) fl)))"
    using group_loop_keys [OF run] by simp
  show "\<forall>(k, files)\<in>set g. files = filter (\<lambda>f. get_file_time_str S fs pwd f fmt = Inr k) fl"
    using group_by_date_members [OF res] by blast
qed

theorem group_by_date_order_witness:
  "group_by_date example_strftime example_fs ''d'' [''b.txt'', ''a.txt'', ''.hid''] ''%Y%m'' =
     Inr [(''202402'', [''b.txt'', ''.hid'']), (''202401'', [''a.txt''])] \<and>
   distinct [''202402'', ''202401''] \<and>
   [Inr ''202402'', Inr ''202401''] =
     rev (remdups (rev (map (\<lambda>f. get_file_time_str example_strftime example_fs ''d'' f ''%Y%m'')
       [''b.txt'', ''a.txt'', ''.hid'']))) \<and>
   [''b.txt'', ''.hid''] =
     filter (\<lambda>f. get_file_time_str example_strftime example_fs ''d'' f ''%Y%m'' = Inr ''202402'')
       [''b.txt'', ''a.txt'', ''.hid''] \<and>
   [''a.txt''] =
     filter (\<lambda>f. get_file_time_str example_strftime example_fs ''d'' f ''%Y%m'' = Inr ''202401'')
       [''b.txt'', ''a.txt'', ''.hid'']"
  using group_by_date_order [OF example_grouping_unsorted] example_grouping_unsorted
  by simp

lemma group_loop_cong:
  "\<forall>f\<in>set fl. getmtime fs' (path_join pwd f) = getmtime fs (path_join pwd f) \<Longrightarrow>
   group_loop S fs' pwd fmt fl acc = group_loop S fs pwd fmt fl acc"
  by (induction fl arbitrary: acc) (simp_all add: get_file_time_str_def split: sum.splits)

text \<open>
  C7. The grouping depends on the file system only through the last-modified times of
  the listed names: two runs of \<^verbatim>\<open>group_by_date\<close> with the same directory path, file list
  and pattern, on file systems that give every listed name the same timestamp, return
  the same result, keys and members in the same order.
\<close>

theorem group_by_date_deterministic:
  "\<forall>f\<in>set fl. getmtime fs' (path_join pwd f) = getmtime fs (path_join pwd f) \<Longrightarrow>
   group_by_date S fs' pwd fl fmt = group_by_date S fs pwd fl fmt"
  unfolding group_by_date_def by (rule group_loop_cong)

lemma example_lookup_a': "lookup example_fs' (path_join ''d'' ''a.txt'') = Some (File 1705276800)"
  by (simp add: fs_eval example_fs'_def example_fs_def)

lemma example_lookup_b': "lookup example_fs' (path_join ''d'' ''b.txt'') = Some (File 1707955200)"
  by (simp add: fs_eval example_fs'_def example_fs_def)

theorem group_by_date_deterministic_witness:
  "getmtime example_fs' (path_join ''d'' ''a.txt'') = getmtime example_fs (path_join ''d'' ''a.txt'') \<and>
   getmtime example_fs' (path_join ''d'' ''b.txt'') = getmtime example_fs (path_join ''d'' ''b.txt'') \<and>
   nodes example_fs' [''d'', ''sub''] \<noteq> nodes example_fs [''d'', ''sub''] \<and>
   group_by_date example_strftime example_fs' ''d'' [''a.txt'', ''b.txt''] ''%Y%m'' =
     group_by_date example_strftime example_fs ''d'' [''a.txt'', ''b.txt''] ''%Y%m''"
proof -
  have same: "\<forall>f\<in>set [''a.txt'', ''b.txt''].
      getmtime example_fs' (path_join ''d'' f) = getmtime example_fs (path_join ''d'' f)"
    by (simp add: getmtime_def example_lookup_a example_lookup_b example_lookup_a' example_lookup_b')
  have "nodes example_fs' [''d'', ''sub''] \<noteq> nodes example_fs [''d'', ''sub'']"
    by (simp add: example_fs'_def example_fs_def)
  with same group_by_date_deterministic [OF same, of example_strftime "''%Y%m''"]
  show ?thesis by simp
qed

lemma main_unfold:
  "main S a fs =
     (case preview_pass S a fs of
        (out, Some e) \<Rightarrow> (out, fs, Some e)
      | (out, None) \<Rightarrow>
          (if \<not> simulation a then
             (case move_pass S a fs of
                (evs, fs', r) \<Rightarrow> (out @ evs, fs', r))
           else (out, fs, None)))"
  by (simp add: main_def main_with_def)

lemma main_nothing_to_do:
  assumes "get_file_list fs (folder_path a) = ([], Inr [])"
  shows "main S a fs = ([], fs, None)"
  using assms
  by (simp add: main_unfold preview_pass_def move_pass_def scan_def group_by_date_def)

text \<open>
  C10. No group of a returned grouping is empty. For the empty file list the grouping is
  empty, the reporter prints nothing and the mover makes no call and leaves the file
  system as it is; a run on a directory without eligible files does nothing at all.
\<close>

theorem groups_nonempty:
  "(group_by_date S fs pwd fl fmt = Inr g \<longrightarrow> (\<forall>(k, files)\<in>set g. files \<noteq> [])) \<and>
   group_by_date S fs pwd [] fmt = Inr [] \<and>
   print_group_info [] = [] \<and>
   do_move pwd [] fs = ([], fs, None) \<and>
   (get_file_list fs (folder_path a) = ([], Inr []) \<longrightarrow> main S a fs = ([], fs, None))"
proof (intro conjI impI)
  assume "group_by_date S fs pwd fl fmt = Inr g"
  then have "group_loop S fs pwd fmt fl [] = Inr g"
    by (simp add: group_by_date_def)
  then have "[] \<notin> snd ` set g"
    by (rule group_loop_nonempty) simp
  then show "\<forall>(k, files)\<in>set g. files \<noteq> []"
    by force
qed (simp_all add: group_by_date_def main_nothing_to_do)

lemma example_empty_folder: "get_file_list example_fs ''d/sub'' = ([], Inr [])"
  by (simp add: get_file_list_def fs_eval example_fs_def)

theorem groups_nonempty_witness:
  "group_by_date example_strftime example_fs ''d'' [''a.txt'', ''b.txt''] ''%Y%m'' =
     Inr [(''202401'', [''a.txt'']), (''202402'', [''b.txt''])] \<and>
   list_all (\<lambda>(k, files). files \<noteq> []) [(''202401'', [''a.txt'']), (''202402'', [''b.txt''])] \<and>
   get_file_list example_fs ''d/sub'' = ([], Inr []) \<and>
   main example_strftime \<lparr>folder_path = ''d/sub'', date_string = ''%Y%m'', simulation = False\<rparr>
     example_fs = ([], example_fs, None)"
  using groups_nonempty [where S = example_strftime and fs = example_fs and pwd = "''d''"
      and fl = "[''a.txt'', ''b.txt'']" and fmt = "''%Y%m''"
      and g = "[(''202401'', [''a.txt'']), (''202402'', [''b.txt''])]"
      and a = "\<lparr>folder_path = ''d/sub'', date_string = ''%Y%m'', simulation = False\<rparr>"]
    example_grouping example_empty_folder
  by simp

section \<open>The passes of the main block\<close>

lemma target_cases:
  "\<not> path_exists fs s \<or> path_isfile fs s \<or> path_isdir fs s"
  by (auto simp: path_exists_def path_isfile_def path_isdir_def split: option.splits node.splits)

lemma isfile_exists: "path_isfile fs s \<Longrightarrow> path_exists fs s"
  by (auto simp: path_exists_def path_isfile_def split: option.splits)

lemma isdir_exists: "path_isdir fs s \<Longrightarrow> path_exists fs s"
  by (auto simp: path_exists_def path_isdir_def split: option.splits)

lemma isdir_not_isfile: "path_isdir fs s \<Longrightarrow> \<not> path_isfile fs s"
  by (auto simp: path_isfile_def path_isdir_def split: option.splits node.splits)

lemma isfile_time_str:
  "path_isfile fs (path_join pwd f) \<Longrightarrow>
   \<exists>t. getmtime fs (path_join pwd f) = Inr t \<and>
     get_file_time_str S fs pwd f fmt =
       (case S t fmt of None \<Rightarrow> Inl ValueError | Some k \<Rightarrow> Inr k)"
  by (auto simp: path_isfile_def get_file_time_str_def getmtime_def split: option.splits node.splits)

lemma scan_missing:
  "\<not> path_exists fs (folder_path a) \<Longrightarrow>
   scan S a fs = ([Print (''No such folder: '' @ folder_path a)], Inl (SystemExit 1))"
  by (simp add: scan_def get_file_list_def)

lemma scan_file:
  "path_isfile fs (folder_path a) \<Longrightarrow>
   scan S a fs = ([Print (folder_path a @ '' is a file.'')], Inl (SystemExit 1))"
  by (simp add: scan_def get_file_list_def isfile_exists)

lemma get_file_list_isdir:
  assumes "path_isdir fs pwd"
  shows "\<exists>fl. get_file_list fs pwd = ([], Inr fl) \<and>
     (\<forall>f\<in>set fl. path_isfile fs (path_join pwd f))"
proof -
  from assms obtain t es where dir: "lookup fs pwd = Some (Dir t es)"
    by (auto simp: path_isdir_def split: option.splits node.splits)
  with assms show ?thesis
    by (simp add: get_file_list_def isdir_exists isdir_not_isfile listdir_def)
qed

lemma scan_flag: "scan S (a\<lparr>simulation := b\<rparr>) fs = scan S a fs"
  by (simp add: scan_def split: prod.splits sum.splits)

lemma scan_dir:
  assumes "path_isdir fs (folder_path a)"
  shows "(\<exists>g. scan S a fs = ([], Inr g)) \<or> scan S a fs = ([], Inl ValueError)"
proof -
  from get_file_list_isdir [OF assms] obtain fl
    where list: "get_file_list fs (folder_path a) = ([], Inr fl)"
      and files: "\<forall>f\<in>set fl. path_isfile fs (path_join (folder_path a) f)"
    by blast
  show ?thesis
  proof (cases "group_by_date S fs (folder_path a) fl (date_string a)")
    case (Inl e)
    then obtain f where "f \<in> set fl"
      and "get_file_time_str S fs (folder_path a) f (date_string a) = Inl e"
      by (auto simp: group_by_date_def dest: group_loop_error)
    with files have "e = ValueError"
      by (auto dest!: get_file_time_str_error isfile_exists)
    with Inl list show ?thesis
      by (simp add: scan_def)
  next
    case (Inr g)
    with list show ?thesis
      by (simp add: scan_def)
  qed
qed

lemma scan_dir_renders:
  assumes "get_file_list fs (folder_path a) = (out, Inr fl)"
    and "\<forall>f\<in>set fl. \<forall>t. getmtime fs (path_join (folder_path a) f) = Inr t \<longrightarrow>
           S t (date_string a) \<noteq> None"
  shows "\<exists>g. scan S a fs = ([], Inr g)"
proof (cases "scan S a fs")
  case (Pair evs res)
  have dir: "path_isdir fs (folder_path a)" and out: "out = []"
    using assms(1) target_cases [of fs "folder_path a"]
    by (auto simp: get_file_list_def isfile_exists split: if_splits)
  show ?thesis
  proof (cases res)
    case (Inl e)
    with Pair assms(1) obtain f where "f \<in> set fl"
      and "get_file_time_str S fs (folder_path a) f (date_string a) = Inl e"
      by (auto simp: scan_def group_by_date_def dest: group_loop_error)
    with assms(2) have "e = OSError"
      by (auto dest!: get_file_time_str_error)
    moreover from scan_dir [OF dir, of S] Pair Inl have "e = ValueError"
      by simp
    ultimately show ?thesis
      by simp
  next
    case (Inr g)
    with Pair scan_dir [OF dir, of S] show ?thesis
      by auto
  qed
qed

lemma scan_error:
  "scan S a fs = (evs, Inl e) \<Longrightarrow>
   list_all is_print evs \<and>
   (e = SystemExit 1 \<and> \<not> path_isdir fs (folder_path a) \<or>
    e = ValueError \<and> evs = [] \<and> path_isdir fs (folder_path a))"
  using target_cases [of fs "folder_path a"] scan_dir [of fs a S]
  by (auto simp: scan_missing scan_file dest: isdir_exists isdir_not_isfile)

lemma scan_ok:
  "scan S a fs = (evs, Inr g) \<Longrightarrow> path_isdir fs (folder_path a) \<and> evs = []"
  using target_cases [of fs "folder_path a"] scan_dir [of fs a S]
  by (auto simp: scan_missing scan_file)

lemma print_group_info_lines:
  "print_group_info g =
     concat (map (\<lambda>(k, files). Print (k @ '':'') # map (\<lambda>f. Print (''  - '' @ f)) files) g)"
  by (induction g rule: print_group_info.induct) simp_all

lemma print_group_info_prints: "list_all is_print (print_group_info g)"
  by (induction g rule: print_group_info.induct) (auto simp: list_all_iff)

lemma os_mkdir_error: "os_mkdir s fs = Inl e \<Longrightarrow> e = OSError"
  by (auto simp: os_mkdir_def split: option.splits if_splits node.splits)

lemma os_rename_error: "os_rename src dst fs = Inl e \<Longrightarrow> e = OSError"
  by (cases e) (auto simp: os_rename_def split: option.splits if_splits)

lemma move_files_events:
  "move_files pwd k files fs = (evs, fs', r) \<Longrightarrow>
   list_all is_mutation evs \<and> r \<noteq> Some (SystemExit n)"
  by (induction files arbitrary: fs evs)
     (auto simp: Let_def split: sum.splits prod.splits dest: os_rename_error)

lemma make_folder_events:
  "make_folder pwd k fs = (evs, fs', r) \<Longrightarrow>
   list_all is_mutation evs \<and> r \<noteq> Some (SystemExit n)"
  by (auto simp: make_folder_def split: if_splits sum.splits dest: os_mkdir_error)

lemma do_move_events:
  "do_move pwd g fs = (evs, fs', r) \<Longrightarrow>
   list_all is_mutation evs \<and> r \<noteq> Some (SystemExit n)"
proof (induction pwd g fs arbitrary: evs fs' r rule: do_move.induct)
  case (1 pwd fs)
  then show ?case by simp
next
  case (2 pwd k files rest fs)
  obtain evs1 fs1 r1 where mk: "make_folder pwd k fs = (evs1, fs1, r1)"
    by (cases "make_folder pwd k fs") auto
  note mk_ok = make_folder_events [OF mk, of n]
  show ?case
  proof (cases r1)
    case (Some e)
    with 2(2) mk mk_ok show ?thesis by auto
  next
    case None
    obtain evs2 fs2 r2 where mv: "move_files pwd k files fs1 = (evs2, fs2, r2)"
      by (cases "move_files pwd k files fs1") auto
    note mv_ok = move_files_events [OF mv, of n]
    show ?thesis
    proof (cases r2)
      case (Some e)
      with 2(2) mk None mv mk_ok mv_ok show ?thesis by auto
    next
      case r2: None
      obtain evs3 fs3 r3 where rest: "do_move pwd rest fs2 = (evs3, fs3, r3)"
        by (cases "do_move pwd rest fs2") auto
      from 2(1) [OF mk [symmetric] _ None mv [symmetric] _ r2 rest]
      have "list_all is_mutation evs3 \<and> r3 \<noteq> Some (SystemExit n)"
        by simp
      with 2(2) mk None mv r2 rest mk_ok mv_ok show ?thesis by auto
    qed
  qed
qed

lemma main_preview:
  "\<exists>post. fst (main S a fs) = fst (preview_pass S a fs) @ post \<and> list_all is_mutation post \<and>
     (simulation a \<longrightarrow> post = [])"
proof (cases "scan S a fs")
  case (Pair evs res)
  show ?thesis
  proof (cases res)
    case (Inl e)
    with Pair show ?thesis
      by (simp add: main_unfold preview_pass_def)
  next
    case (Inr g)
    with Pair have evs: "evs = []"
      by (simp add: scan_ok)
    obtain evs' fs' r where mv: "do_move (folder_path a) g fs = (evs', fs', r)"
      by (cases "do_move (folder_path a) g fs") auto
    then have "list_all is_mutation evs'"
      by (simp add: do_move_events)
    with Pair Inr evs mv show ?thesis
      by (simp add: main_unfold preview_pass_def move_pass_def)
  qed
qed

lemma preview_pass_prints: "list_all is_print (fst (preview_pass S a fs))"
proof (cases "scan S a fs")
  case (Pair evs res)
  then show ?thesis
    by (cases res) (auto simp: preview_pass_def print_group_info_prints dest: scan_error scan_ok)
qed

lemma preview_pass_dir:
  "scan S a fs = ([], Inr g) \<Longrightarrow> preview_pass S a fs = (print_group_info g, None)"
  by (simp add: preview_pass_def)

lemma main_fs_simulation: "simulation a \<Longrightarrow> fst (snd (main S a fs)) = fs"
  by (simp add: main_unfold split: prod.splits option.splits)

lemma main_simulation:
  "simulation a \<Longrightarrow>
   main S a fs =
     (case scan S a fs of
        (out, Inl e) \<Rightarrow> (out, fs, Some e)
      | (out, Inr g) \<Rightarrow> (print_group_info g, fs, None))"
  by (auto simp: main_unfold preview_pass_def split: prod.splits sum.splits dest: scan_ok)

lemma example_isdir: "path_isdir example_fs ''d''"
  by (simp add: path_isdir_def example_lookup_d)

lemma example_later_isdir: "path_isdir example_fs_later ''d''"
  by (simp add: fs_eval example_fs_later_def example_fs_def)

lemma example_later_scan:
  "scan example_strftime (example_args\<lparr>simulation := b\<rparr>) example_fs_later =
     ([], Inr [(''202401'', [''a.txt'']), (''202402'', [''b.txt'', ''c.txt''])])"
  by (simp add: scan_def example_args_def get_file_list_def group_by_date_def
        get_file_time_str_def fs_eval example_fs_later_def example_fs_def example_strftime_def)

lemma example_far_scan:
  "scan example_strftime (example_args\<lparr>simulation := b\<rparr>) example_fs_far = ([], Inl ValueError)"
  by (simp add: scan_def example_args_def get_file_list_def group_by_date_def
        get_file_time_str_def fs_eval example_fs_far_def example_fs_def example_strftime_def)

text \<open>
  C3. With the simulation flag set the run makes no \<^verbatim>\<open>mkdir\<close> and no \<^verbatim>\<open>rename\<close> call: it
  only prints, and it leaves the file system, and so the listing of the target directory,
  as it was. When the scan returns a grouping, the run prints the whole preview, a key
  line for every group followed by one indented line for every member, and ends
  normally; when the scan raises, the run ends with that exception. On a directory
  whose listed files all have a timestamp that can be rendered, the scan returns a
  grouping.
\<close>

theorem simulation_no_mutation:
  "simulation a \<Longrightarrow>
   (\<exists>evs r. main S a fs = (evs, fs, r) \<and> list_all is_print evs \<and>
      (case scan S a fs of
         (out, Inl e) \<Rightarrow> evs = out \<and> r = Some e
       | (out, Inr g) \<Rightarrow>
           evs = concat (map (\<lambda>(k, files).
                   Print (k @ '':'') # map (\<lambda>f. Print (''  - '' @ f)) files) g) \<and>
           r = None)) \<and>
   listdir (fst (snd (main S a fs))) (folder_path a) = listdir fs (folder_path a) \<and>
   (\<forall>fl. get_file_list fs (folder_path a) = ([], Inr fl) \<and>
      (\<forall>f\<in>set fl. \<forall>t. getmtime fs (path_join (folder_path a) f) = Inr t \<longrightarrow>
         S t (date_string a) \<noteq> None) \<longrightarrow>
      (\<exists>g. scan S a fs = ([], Inr g)))"
proof (intro conjI allI impI)
  assume sim: "simulation a"
  show "\<exists>evs r. main S a fs = (evs, fs, r) \<and> list_all is_print evs \<and>
      (case scan S a fs of
         (out, Inl e) \<Rightarrow> evs = out \<and> r = Some e
       | (out, Inr g) \<Rightarrow>
           evs = concat (map (\<lambda>(k, files).
                   Print (k @ '':'') # map (\<lambda>f. Print (''  - '' @ f)) files) g) \<and>
           r = None)"
  proof (cases "scan S a fs")
    case (Pair out res)
    show ?thesis
    proof (cases res)
      case (Inl e)
      with Pair sim show ?thesis
        by (auto simp: main_simulation dest: scan_error)
    next
      case (Inr g)
      with Pair sim show ?thesis
        using print_group_info_prints [of g]
        by (simp add: main_simulation print_group_info_lines)
    qed
  qed
  from sim show "listdir (fst (snd (main S a fs))) (folder_path a) = listdir fs (folder_path a)"
    by (simp add: main_fs_simulation)
next
  fix fl
  assume "get_file_list fs (folder_path a) = ([], Inr fl) \<and>
      (\<forall>f\<in>set fl. \<forall>t. getmtime fs (path_join (folder_path a) f) = Inr t \<longrightarrow>
         S t (date_string a) \<noteq> None)"
  then show "\<exists>g. scan S a fs = ([], Inr g)"
    by (blast intro: scan_dir_renders)
qed

theorem simulation_no_mutation_witness:
  "simulation (example_args\<lparr>simulation := True\<rparr>) \<and>
   main example_strftime (example_args\<lparr>simulation := True\<rparr>) example_fs_later =
     ([Print ''202401:'', Print ''  - a.txt'', Print ''202402:'', Print ''  - b.txt'',
       Print ''  - c.txt''],
      example_fs_later, None) \<and>
   main example_strftime (example_args\<lparr>simulation := True\<rparr>) example_fs_far =
     ([], example_fs_far, Some ValueError) \<and>
   listdir (fst (snd (main example_strftime (example_args\<lparr>simulation := True\<rparr>)
       example_fs_later))) ''d'' =
     Inr [''a.txt'', ''.hid'', ''b.txt'', ''sub'', ''c.txt'']"
proof -
  have sim: "simulation (example_args\<lparr>simulation := True\<rparr>)"
    by simp
  have ls: "listdir example_fs_later ''d'' = Inr [''a.txt'', ''.hid'', ''b.txt'', ''sub'', ''c.txt'']"
    by (simp add: fs_eval example_fs_later_def example_fs_def)
  have pwd: "folder_path (example_args\<lparr>simulation := True\<rparr>) = ''d''"
    by (simp add: example_args_def)
  from simulation_no_mutation [OF sim, of example_strftime example_fs_later]
    simulation_no_mutation [OF sim, of example_strftime example_fs_far]
  show ?thesis
    unfolding example_later_scan example_far_scan pwd ls
    by (auto simp: example_args_def)
qed

lemma main_missing:
  "\<not> path_exists fs (folder_path a) \<Longrightarrow>
   main S a fs = ([Print (''No such folder: '' @ folder_path a)], fs, Some (SystemExit 1))"
  by (simp add: main_unfold preview_pass_def scan_missing)

lemma main_file:
  "path_isfile fs (folder_path a) \<Longrightarrow>
   main S a fs = ([Print (folder_path a @ '' is a file.'')], fs, Some (SystemExit 1))"
  by (simp add: main_unfold preview_pass_def scan_file)

lemma main_dir_no_exit:
  assumes "path_isdir fs (folder_path a)"
  shows "snd (snd (main S a fs)) \<noteq> Some (SystemExit n)"
proof -
  from scan_dir [OF assms, of S] show ?thesis
  proof
    assume "\<exists>g. scan S a fs = ([], Inr g)"
    then obtain g where g: "scan S a fs = ([], Inr g)" ..
    obtain evs fs' r where mv: "do_move (folder_path a) g fs = (evs, fs', r)"
      by (cases "do_move (folder_path a) g fs") auto
    then have "r \<noteq> Some (SystemExit n)"
      by (simp add: do_move_events)
    with g mv show ?thesis
      by (simp add: main_unfold preview_pass_def move_pass_def)
  next
    assume "scan S a fs = ([], Inl ValueError)"
    then show ?thesis
      by (simp add: main_unfold preview_pass_def)
  qed
qed

text \<open>
  C5. When the target path does not exist, or is a regular file, the run prints the
  diagnostic, makes no other call, leaves the file system as it is and ends with
  \<^verbatim>\<open>exit(1)\<close>. The script calls \<^verbatim>\<open>exit\<close> in these two cases only.
\<close>

theorem invalid_target:
  "(\<not> path_exists fs (folder_path a) \<longrightarrow>
      main S a fs = ([Print (''No such folder: '' @ folder_path a)], fs, Some (SystemExit 1))) \<and>
   (path_isfile fs (folder_path a) \<longrightarrow>
      main S a fs = ([Print (folder_path a @ '' is a file.'')], fs, Some (SystemExit 1))) \<and>
   ((\<exists>n. snd (snd (main S a fs)) = Some (SystemExit n)) \<longleftrightarrow>
      \<not> path_exists fs (folder_path a) \<or> path_isfile fs (folder_path a))"
proof (intro conjI impI iffI)
  assume "\<exists>n. snd (snd (main S a fs)) = Some (SystemExit n)"
  then have "\<not> path_isdir fs (folder_path a)"
    using main_dir_no_exit by blast
  then show "\<not> path_exists fs (folder_path a) \<or> path_isfile fs (folder_path a)"
    using target_cases by blast
next
  assume "\<not> path_exists fs (folder_path a) \<or> path_isfile fs (folder_path a)"
  then show "\<exists>n. snd (snd (main S a fs)) = Some (SystemExit n)"
    by (auto simp: main_missing main_file)
qed (simp_all add: main_missing main_file)

lemma example_missing: "\<not> path_exists example_fs ''nowhere''"
  by (simp add: fs_eval example_fs_def)

lemma example_isfile: "path_isfile example_fs ''d/a.txt''"
  by (simp add: fs_eval example_fs_def)

theorem invalid_target_witness:
  "\<not> path_exists example_fs ''nowhere'' \<and>
   main example_strftime (example_args\<lparr>folder_path := ''nowhere''\<rparr>) example_fs =
     ([Print ''No such folder: nowhere''], example_fs, Some (SystemExit 1)) \<and>
   path_isfile example_fs ''d/a.txt'' \<and>
   main example_strftime (example_args\<lparr>folder_path := ''d/a.txt''\<rparr>) example_fs =
     ([Print ''d/a.txt is a file.''], example_fs, Some (SystemExit 1)) \<and>
   path_isdir example_fs ''d'' \<and>
   (\<nexists>n. snd (snd (main example_strftime example_args example_fs)) = Some (SystemExit n))"
proof -
  note invalid_target [of example_fs "example_args\<lparr>folder_path := ''nowhere''\<rparr>" example_strftime]
    invalid_target [of example_fs "example_args\<lparr>folder_path := ''d/a.txt''\<rparr>" example_strftime]
    invalid_target [of example_fs example_args example_strftime]
  moreover have "path_exists example_fs ''d''" and "\<not> path_isfile example_fs ''d''"
    using example_isdir by (simp_all add: isdir_exists isdir_not_isfile)
  ultimately show ?thesis
    using example_missing example_isfile example_isdir
    by (simp add: example_args_def)
qed

lemma example_move:
  "fst (do_move ''d'' [(''202401'', [''a.txt'']), (''202402'', [''b.txt''])] example_fs) =
     [Mkdir ''d/202401'', Rename ''d/a.txt'' ''d/202401/a.txt'',
      Mkdir ''d/202402'', Rename ''d/b.txt'' ''d/202402/b.txt'']"
  by (simp add: make_folder_def fs_eval os_mkdir_def strip_slashes_def os_rename_def
        example_fs_def add_entry_def del_entry_def move_tree_def)

lemma example_later_move:
  "fst (do_move ''d'' [(''202401'', [''a.txt'']), (''202402'', [''b.txt'', ''c.txt''])]
      example_fs_later) =
     [Mkdir ''d/202401'', Rename ''d/a.txt'' ''d/202401/a.txt'',
      Mkdir ''d/202402'', Rename ''d/b.txt'' ''d/202402/b.txt'',
      Rename ''d/c.txt'' ''d/202402/c.txt'']"
  by (simp add: make_folder_def fs_eval os_mkdir_def strip_slashes_def os_rename_def
        example_fs_later_def example_fs_def add_entry_def del_entry_def move_tree_def)

lemma main_ok_scan:
  assumes "main S a fs = (evs, fs', None)"
  shows "\<exists>g. scan S a fs = ([], Inr g)"
proof (cases "scan S a fs")
  case (Pair out res)
  with assms show ?thesis
    by (cases res) (auto simp: main_unfold preview_pass_def dest: scan_ok)
qed

lemma main_moves:
  assumes "main S a fs = (evs, fs', r)" and "\<not> simulation a" and "scan S a fs = ([], Inr g)"
  shows "\<exists>mv. do_move (folder_path a) g fs = (mv, fs', r) \<and> evs = print_group_info g @ mv"
  using assms by (auto simp: main_unfold preview_pass_def move_pass_def split: prod.splits)

text \<open>
  C8. The events of every run, with or without the simulation flag, are prints followed
  by \<^verbatim>\<open>mkdir\<close> and \<^verbatim>\<open>rename\<close> calls: no call that changes the file system comes before
  a print. The prints are what the run with the simulation flag prints. When the scan
  returns a grouping they are the whole preview, a key line for every group followed by
  one indented line for every member; when the scan raises, the run makes no call that
  changes the file system. On a directory whose listed files all have a timestamp that
  can be rendered, the scan returns a grouping.
\<close>

theorem preview_before_mutation:
  "(\<exists>pre post. fst (main S a fs) = pre @ post \<and>
      list_all is_print pre \<and> list_all is_mutation post \<and>
      pre = fst (main S (a\<lparr>simulation := True\<rparr>) fs) \<and>
      (case scan S a fs of
         (out, Inl e) \<Rightarrow> pre = out \<and> post = []
       | (out, Inr g) \<Rightarrow>
           pre = concat (map (\<lambda>(k, files).
                   Print (k @ '':'') # map (\<lambda>f. Print (''  - '' @ f)) files) g))) \<and>
   (\<forall>fl. get_file_list fs (folder_path a) = ([], Inr fl) \<and>
      (\<forall>f\<in>set fl. \<forall>t. getmtime fs (path_join (folder_path a) f) = Inr t \<longrightarrow>
         S t (date_string a) \<noteq> None) \<longrightarrow>
      (\<exists>g. scan S a fs = ([], Inr g)))"
proof (intro conjI allI impI)
  have sim: "main S (a\<lparr>simulation := True\<rparr>) fs =
      (case scan S a fs of
         (out, Inl e) \<Rightarrow> (out, fs, Some e)
       | (out, Inr g) \<Rightarrow> (print_group_info g, fs, None))"
    by (simp add: main_simulation scan_flag)
  show "\<exists>pre post. fst (main S a fs) = pre @ post \<and>
      list_all is_print pre \<and> list_all is_mutation post \<and>
      pre = fst (main S (a\<lparr>simulation := True\<rparr>) fs) \<and>
      (case scan S a fs of
         (out, Inl e) \<Rightarrow> pre = out \<and> post = []
       | (out, Inr g) \<Rightarrow>
           pre = concat (map (\<lambda>(k, files).
                   Print (k @ '':'') # map (\<lambda>f. Print (''  - '' @ f)) files) g))"
  proof (cases "scan S a fs")
    case (Pair out res)
    show ?thesis
    proof (cases res)
      case (Inl e)
      with Pair have "fst (main S a fs) = out @ []" and "list_all is_print out"
        by (auto simp: main_unfold preview_pass_def dest: scan_error)
      with Pair Inl sim show ?thesis
        by (intro exI [of _ out] exI [of _ "[]"]) simp
    next
      case (Inr g)
      with Pair have out: "out = []"
        by (simp add: scan_ok)
      obtain mv fs' r where mv: "do_move (folder_path a) g fs = (mv, fs', r)"
        by (cases "do_move (folder_path a) g fs") auto
      then have muts: "list_all is_mutation mv"
        by (simp add: do_move_events)
      show ?thesis
      proof (cases "simulation a")
        case True
        with Pair Inr out sim have "fst (main S a fs) = print_group_info g @ []"
          by (simp add: main_simulation)
        with Pair Inr out sim print_group_info_prints [of g] show ?thesis
          by (intro exI [of _ "print_group_info g"] exI [of _ "[]"])
             (simp add: print_group_info_lines)
      next
        case False
        with Pair Inr out mv have "fst (main S a fs) = print_group_info g @ mv"
          by (simp add: main_unfold preview_pass_def move_pass_def)
        with Pair Inr out sim muts print_group_info_prints [of g] show ?thesis
          by (intro exI [of _ "print_group_info g"] exI [of _ mv])
             (simp add: print_group_info_lines)
      qed
    qed
  qed
next
  fix fl
  assume "get_file_list fs (folder_path a) = ([], Inr fl) \<and>
      (\<forall>f\<in>set fl. \<forall>t. getmtime fs (path_join (folder_path a) f) = Inr t \<longrightarrow>
         S t (date_string a) \<noteq> None)"
  then show "\<exists>g. scan S a fs = ([], Inr g)"
    by (blast intro: scan_dir_renders)
qed

lemma example_later_main:
  "fst (main example_strftime example_args example_fs_later) =
     [Print ''202401:'', Print ''  - a.txt'', Print ''202402:'', Print ''  - b.txt'',
      Print ''  - c.txt'',
      Mkdir ''d/202401'', Rename ''d/a.txt'' ''d/202401/a.txt'',
      Mkdir ''d/202402'', Rename ''d/b.txt'' ''d/202402/b.txt'',
      Rename ''d/c.txt'' ''d/202402/c.txt'']"
proof -
  have scan: "scan example_strftime example_args example_fs_later =
      ([], Inr [(''202401'', [''a.txt'']), (''202402'', [''b.txt'', ''c.txt''])])"
    using example_later_scan [of False] by (simp add: example_args_def)
  obtain mv fs' r
    where mv: "do_move ''d'' [(''202401'', [''a.txt'']), (''202402'', [''b.txt'', ''c.txt''])]
        example_fs_later = (mv, fs', r)"
    by (cases "do_move ''d'' [(''202401'', [''a.txt'']), (''202402'', [''b.txt'', ''c.txt''])]
        example_fs_later") auto
  with example_later_move have "mv = [Mkdir ''d/202401'', Rename ''d/a.txt'' ''d/202401/a.txt'',
      Mkdir ''d/202402'', Rename ''d/b.txt'' ''d/202402/b.txt'',
      Rename ''d/c.txt'' ''d/202402/c.txt'']"
    by (simp del: do_move.simps)
  with mv scan show ?thesis
    by (simp add: main_unfold preview_pass_def move_pass_def example_args_def
          del: do_move.simps)
qed

theorem preview_before_mutation_witness:
  "fst (main example_strftime example_args example_fs_later) =
     [Print ''202401:'', Print ''  - a.txt'', Print ''202402:'', Print ''  - b.txt'',
      Print ''  - c.txt'',
      Mkdir ''d/202401'', Rename ''d/a.txt'' ''d/202401/a.txt'',
      Mkdir ''d/202402'', Rename ''d/b.txt'' ''d/202402/b.txt'',
      Rename ''d/c.txt'' ''d/202402/c.txt''] \<and>
   (\<exists>post. fst (main example_strftime example_args example_fs_later) =
      [Print ''202401:'', Print ''  - a.txt'', Print ''202402:'', Print ''  - b.txt'',
       Print ''  - c.txt''] @ post \<and>
      list_all is_mutation post) \<and>
   fst (main example_strftime (example_args\<lparr>simulation := True\<rparr>) example_fs_later) =
     [Print ''202401:'', Print ''  - a.txt'', Print ''202402:'', Print ''  - b.txt'',
      Print ''  - c.txt''] \<and>
   fst (main example_strftime example_args example_fs_far) = []"
proof -
  let ?lines = "[Print ''202401:'', Print ''  - a.txt'', Print ''202402:'', Print ''  - b.txt'',
      Print ''  - c.txt'']"
  have scan: "scan example_strftime example_args example_fs_later =
      ([], Inr [(''202401'', [''a.txt'']), (''202402'', [''b.txt'', ''c.txt''])])"
    and far: "scan example_strftime example_args example_fs_far = ([], Inl ValueError)"
    using example_later_scan [of False] example_far_scan [of False]
    by (simp_all add: example_args_def)
  have "\<exists>pre post. fst (main example_strftime example_args example_fs_later) = pre @ post \<and>
      list_all is_print pre \<and> list_all is_mutation post \<and>
      pre = fst (main example_strftime (example_args\<lparr>simulation := True\<rparr>) example_fs_later) \<and>
      (case scan example_strftime example_args example_fs_later of
         (out, Inl e) \<Rightarrow> pre = out \<and> post = []
       | (out, Inr g) \<Rightarrow>
           pre = concat (map (\<lambda>(k, files).
                   Print (k @ '':'') # map (\<lambda>f. Print (''  - '' @ f)) files) g))"
    using preview_before_mutation [of example_strftime example_args example_fs_later]
    by (rule conjunct1)
  then obtain pre post
    where run: "fst (main example_strftime example_args example_fs_later) = pre @ post"
      and "list_all is_print pre"
      and post: "list_all is_mutation post"
      and sim: "pre = fst (main example_strftime (example_args\<lparr>simulation := True\<rparr>) example_fs_later)"
      and pre: "case scan example_strftime example_args example_fs_later of
         (out, Inl e) \<Rightarrow> pre = out \<and> post = []
       | (out, Inr g) \<Rightarrow>
           pre = concat (map (\<lambda>(k, files).
                   Print (k @ '':'') # map (\<lambda>f. Print (''  - '' @ f)) files) g)"
    by (elim exE conjE) (rule that)
  from pre have lines: "pre = ?lines"
    unfolding scan by simp
  have "\<exists>pre post. fst (main example_strftime example_args example_fs_far) = pre @ post \<and>
      list_all is_print pre \<and> list_all is_mutation post \<and>
      pre = fst (main example_strftime (example_args\<lparr>simulation := True\<rparr>) example_fs_far) \<and>
      (case scan example_strftime example_args example_fs_far of
         (out, Inl e) \<Rightarrow> pre = out \<and> post = []
       | (out, Inr g) \<Rightarrow>
           pre = concat (map (\<lambda>(k, files).
                   Print (k @ '':'') # map (\<lambda>f. Print (''  - '' @ f)) files) g))"
    using preview_before_mutation [of example_strftime example_args example_fs_far]
    by (rule conjunct1)
  then obtain pre' post'
    where "fst (main example_strftime example_args example_fs_far) = pre' @ post'"
      and "list_all is_print pre'" and "list_all is_mutation post'"
      and "pre' = fst (main example_strftime (example_args\<lparr>simulation := True\<rparr>) example_fs_far)"
      and "case scan example_strftime example_args example_fs_far of
         (out, Inl e) \<Rightarrow> pre' = out \<and> post' = []
       | (out, Inr g) \<Rightarrow>
           pre' = concat (map (\<lambda>(k, files).
                   Print (k @ '':'') # map (\<lambda>f. Print (''  - '' @ f)) files) g)"
    by (elim exE conjE) (rule that)
  then have far_out: "fst (main example_strftime example_args example_fs_far) = []"
    unfolding far by (simp only: prod.case sum.case append_Nil2)
  have "\<exists>post. fst (main example_strftime example_args example_fs_later) = ?lines @ post \<and>
      list_all is_mutation post"
    using run post unfolding lines by blast
  moreover have "fst (main example_strftime (example_args\<lparr>simulation := True\<rparr>) example_fs_later) =
      ?lines"
    using sim unfolding lines by (rule sym)
  ultimately show ?thesis
    using example_later_main far_out by (intro conjI)
qed

lemma main_is_single_scan: "main S a fs = main_single_scan S a fs"
proof (cases "scan S a fs")
  case (Pair evs res)
  show ?thesis
  proof (cases res)
    case (Inl e)
    with Pair show ?thesis
      by (simp add: main_unfold main_single_scan_def preview_pass_def)
  next
    case (Inr g)
    with Pair have "evs = []"
      by (simp add: scan_ok)
    with Pair Inr show ?thesis
      by (simp add: main_unfold main_single_scan_def preview_pass_def move_pass_def
            split: prod.splits)
  qed
qed

lemma main_with_moves:
  assumes "\<not> simulation a" and "scan S a fs = ([], Inr g)"
  shows "main_with S others a fs =
     (case scan S a (others fs) of
        (out, Inl e) \<Rightarrow> (print_group_info g @ out, others fs, Some e)
      | (out, Inr g') \<Rightarrow>
          (case do_move (folder_path a) g' (others fs) of
             (mv, fs', r) \<Rightarrow> (print_group_info g @ mv, fs', r)))"
proof (cases "scan S a (others fs)")
  case (Pair out res)
  show ?thesis
  proof (cases res)
    case (Inl e)
    with Pair assms show ?thesis
      by (simp add: main_with_def preview_pass_def move_pass_def)
  next
    case (Inr g')
    with Pair have "out = []"
      by (simp add: scan_ok)
    with Pair Inr assms show ?thesis
      by (simp add: main_with_def preview_pass_def move_pass_def split: prod.splits)
  qed
qed

text \<open>
  C9. Without the simulation flag, after a preview of the grouping \<open>g\<close>, the move pass
  does not take \<open>g\<close>: it scans the file system as it is then, \<open>others fs\<close>, and hands the
  mover the grouping of that scan (or ends with the exception of that scan). When
  nothing else has touched the file system, the grouping moved is the grouping
  previewed, and the script does what the single-scan variant does.
\<close>

theorem move_pass_rescans:
  "\<not> simulation a \<Longrightarrow> scan S a fs = ([], Inr g) \<Longrightarrow>
   main_with S others a fs =
     (case scan S a (others fs) of
        (out, Inl e) \<Rightarrow> (print_group_info g @ out, others fs, Some e)
      | (out, Inr g') \<Rightarrow>
          (case do_move (folder_path a) g' (others fs) of
             (mv, fs', r) \<Rightarrow> (print_group_info g @ mv, fs', r))) \<and>
   main S a fs =
     (case do_move (folder_path a) g fs of
        (mv, fs', r) \<Rightarrow> (print_group_info g @ mv, fs', r)) \<and>
   main S a fs = main_single_scan S a fs"
proof (intro conjI)
  assume flag: "\<not> simulation a" and scan: "scan S a fs = ([], Inr g)"
  show "main_with S others a fs =
     (case scan S a (others fs) of
        (out, Inl e) \<Rightarrow> (print_group_info g @ out, others fs, Some e)
      | (out, Inr g') \<Rightarrow>
          (case do_move (folder_path a) g' (others fs) of
             (mv, fs', r) \<Rightarrow> (print_group_info g @ mv, fs', r)))"
    using flag scan by (rule main_with_moves)
  from main_with_moves [OF flag scan, of "\<lambda>fs. fs"] scan
  show "main S a fs =
     (case do_move (folder_path a) g fs of
        (mv, fs', r) \<Rightarrow> (print_group_info g @ mv, fs', r))"
    by (simp add: main_def)
  show "main S a fs = main_single_scan S a fs"
    by (rule main_is_single_scan)
qed

theorem move_pass_rescans_witness:
  "\<not> simulation example_args \<and>
   scan example_strftime example_args example_fs =
     ([], Inr [(''202401'', [''a.txt'']), (''202402'', [''b.txt''])]) \<and>
   scan example_strftime example_args example_fs_later =
     ([], Inr [(''202401'', [''a.txt'']), (''202402'', [''b.txt'', ''c.txt''])]) \<and>
   fst (main_with example_strftime (\<lambda>fs. example_fs_later) example_args example_fs) =
     [Print ''202401:'', Print ''  - a.txt'', Print ''202402:'', Print ''  - b.txt'',
      Mkdir ''d/202401'', Rename ''d/a.txt'' ''d/202401/a.txt'',
      Mkdir ''d/202402'', Rename ''d/b.txt'' ''d/202402/b.txt'',
      Rename ''d/c.txt'' ''d/202402/c.txt''] \<and>
   fst (main example_strftime example_args example_fs) =
     [Print ''202401:'', Print ''  - a.txt'', Print ''202402:'', Print ''  - b.txt'',
      Mkdir ''d/202401'', Rename ''d/a.txt'' ''d/202401/a.txt'',
      Mkdir ''d/202402'', Rename ''d/b.txt'' ''d/202402/b.txt''] \<and>
   main example_strftime example_args example_fs =
     main_single_scan example_strftime example_args example_fs"
proof -
  have flag: "\<not> simulation example_args" and pwd: "folder_path example_args = ''d''"
    by (simp_all add: example_args_def)
  have later: "scan example_strftime example_args example_fs_later =
      ([], Inr [(''202401'', [''a.txt'']), (''202402'', [''b.txt'', ''c.txt''])])"
    using example_later_scan [of False] by (simp add: example_args_def)
  note all = move_pass_rescans [OF flag example_scan, of "\<lambda>fs. example_fs_later"]
  from all have "main_with example_strftime (\<lambda>fs. example_fs_later) example_args example_fs =
      (case do_move ''d'' [(''202401'', [''a.txt'']), (''202402'', [''b.txt'', ''c.txt''])]
          example_fs_later of
         (mv, fs', r) \<Rightarrow>
           (print_group_info [(''202401'', [''a.txt'']), (''202402'', [''b.txt''])] @ mv, fs', r))"
    unfolding later pwd by (simp del: do_move.simps print_group_info.simps)
  then have other: "fst (main_with example_strftime (\<lambda>fs. example_fs_later) example_args example_fs) =
      print_group_info [(''202401'', [''a.txt'']), (''202402'', [''b.txt''])] @
      fst (do_move ''d'' [(''202401'', [''a.txt'']), (''202402'', [''b.txt'', ''c.txt''])]
          example_fs_later)"
    by (simp del: do_move.simps print_group_info.simps split: prod.splits)
  from all have "main example_strftime example_args example_fs =
      (case do_move ''d'' [(''202401'', [''a.txt'']), (''202402'', [''b.txt''])] example_fs of
         (mv, fs', r) \<Rightarrow>
           (print_group_info [(''202401'', [''a.txt'']), (''202402'', [''b.txt''])] @ mv, fs', r))"
    unfolding pwd by blast
  then have alone: "fst (main example_strftime example_args example_fs) =
      print_group_info [(''202401'', [''a.txt'']), (''202402'', [''b.txt''])] @
      fst (do_move ''d'' [(''202401'', [''a.txt'']), (''202402'', [''b.txt''])] example_fs)"
    by (simp del: do_move.simps print_group_info.simps split: prod.splits)
  from all have "main example_strftime example_args example_fs =
      main_single_scan example_strftime example_args example_fs"
    by blast
  with flag example_scan later other alone show ?thesis
    unfolding example_later_move example_move by simp
qed

section \<open>Path strings and resolution\<close>

lemma split_path_nonempty: "split_path s \<noteq> []"
  by (induction s) (auto split: list.splits)

lemma split_path_append:
  "split_path (a @ CHR ''/'' # b) = split_path a @ split_path b"
  by (induction a) (auto split: list.splits simp: split_path_nonempty)

lemma split_path_name: "CHR ''/'' \<notin> set n \<Longrightarrow> split_path n = [n]"
  by (induction n) auto

lemma walk_append:
  "walk ns cur (xs @ ys) = (case walk ns cur xs of None \<Rightarrow> None | Some p \<Rightarrow> walk ns p ys)"
  by (induction xs arbitrary: cur) (auto split: option.splits node.splits)

lemma walk_name:
  "valid_name n \<Longrightarrow> walk ns p [n] = (if is_dir (ns p) then Some (p @ [n]) else None)"
  by (cases "ns p" rule: is_dir.cases) (auto simp: valid_name_def)

lemma walk_empty:
  "walk ns p [[]] = (if is_dir (ns p) then Some p else None)"
  by (cases "ns p" rule: is_dir.cases) auto

lemma resolve_join:
  assumes "resolve fs s = Some p" and "valid_name n"
  shows "resolve fs (path_join s n) = (if is_dir (nodes fs p) then Some (p @ [n]) else None)"
proof -
  from assms(1) have s: "s \<noteq> []"
    by (auto simp: resolve_def)
  let ?start = "if hd s = CHR ''/'' then [] else cwd fs"
  from assms(1) s have walk: "walk (nodes fs) ?start (split_path s) = Some p"
    by (simp add: resolve_def)
  from assms(2) have n: "n \<noteq> []" "hd n \<noteq> CHR ''/''" "split_path n = [n]"
    by (auto simp: valid_name_def split_path_name dest: hd_in_set)
  show ?thesis
  proof (cases "last s = CHR ''/''")
    case True
    with s have s': "s = butlast s @ CHR ''/'' # []"
      by (metis append_butlast_last_id)
    then have "split_path s = split_path (butlast s) @ [[]]"
      by (metis split_path_append split_path.simps(1))
    with walk obtain p' where p': "walk (nodes fs) ?start (split_path (butlast s)) = Some p'"
      and "walk (nodes fs) p' [[]] = Some p"
      by (auto simp: walk_append split: option.splits)
    then have dir: "is_dir (nodes fs p')" and "p' = p"
      by (auto simp: walk_empty simp del: walk.simps split: if_splits)
    have "path_join s n = butlast s @ CHR ''/'' # n"
      using True s s' n by (simp add: path_join_def)
    moreover have "hd (butlast s @ CHR ''/'' # n) = hd s"
      using s' by (metis hd_append2 list.sel(1) append_is_Nil_conv hd_append)
    ultimately show ?thesis
      using p' dir \<open>p' = p\<close> n assms(2)
      by (simp add: resolve_def split_path_append walk_append walk_name del: walk.simps)
  next
    case False
    with s n have "path_join s n = s @ CHR ''/'' # n"
      by (simp add: path_join_def)
    moreover have "hd (s @ CHR ''/'' # n) = hd s"
      using s by simp
    ultimately show ?thesis
      using walk n assms(2) s
      by (simp add: resolve_def split_path_append walk_append walk_name del: walk.simps)
  qed
qed

lemma lookup_join:
  assumes "resolve fs s = Some p" and "is_dir (nodes fs p)" and "valid_name n"
  shows "lookup fs (path_join s n) = nodes fs (p @ [n])"
  using resolve_join [OF assms(1,3)] assms(2) by (simp add: lookup_def)

lemma path_isfile_is_file: "path_isfile fs s = is_file (lookup fs s)"
  by (cases "lookup fs s" rule: is_file.cases) (simp_all add: path_isfile_def)

lemma path_isdir_is_dir: "path_isdir fs s = is_dir (lookup fs s)"
  by (cases "lookup fs s" rule: is_dir.cases) (simp_all add: path_isdir_def)

section \<open>The directory lister\<close>

lemma get_file_list_dir:
  assumes "resolve fs pwd = Some p" and "nodes fs p = Some (Dir t es)"
    and "list_all valid_name es"
  shows "get_file_list fs pwd =
     ([], Inr (filter (\<lambda>f. is_file (nodes fs (p @ [f])) \<and>
                              f \<notin> {''desktop.ini'', ''thumbs.db'', ''.DS_Store''} \<and>
                              hd f \<noteq> CHR ''.'') es))"
proof -
  let ?keep = "\<lambda>f. path_isfile fs (path_join pwd f) \<and>
      f \<notin> set [''desktop.ini'', ''thumbs.db'', ''.DS_Store''] \<and> \<not> startswith f ''.''"
  let ?spec = "\<lambda>f. is_file (nodes fs (p @ [f])) \<and>
      f \<notin> {''desktop.ini'', ''thumbs.db'', ''.DS_Store''} \<and> hd f \<noteq> CHR ''.''"
  from assms(1,2) have dir: "lookup fs pwd = Some (Dir t es)"
    by (simp add: lookup_def)
  then have "get_file_list fs pwd = ([], Inr (filter ?keep es))"
    by (simp add: get_file_list_def path_exists_def path_isfile_def listdir_def)
  moreover have "?keep f = ?spec f" if "f \<in> set es" for f
  proof -
    from that assms(3) have ok: "valid_name f"
      by (simp add: list_all_iff)
    then have "f \<noteq> []"
      by (simp add: valid_name_def)
    then have "startswith f ''.'' = (hd f = CHR ''.'')"
      by (cases f) (auto simp: startswith_def)
    moreover have "path_isfile fs (path_join pwd f) = is_file (nodes fs (p @ [f]))"
      using lookup_join [OF assms(1) _ ok] assms(2) by (simp add: path_isfile_is_file)
    ultimately show ?thesis by simp
  qed
  then have "filter ?keep es = filter ?spec es"
    by (intro filter_cong) simp_all
  ultimately show ?thesis
    by simp
qed

text \<open>
  C4. On a directory whose entries have pairwise different, well-formed names,
  \<^verbatim>\<open>get_file_list\<close> prints nothing and returns the entries, in listing order and without
  duplicates, that are regular files directly in the directory, are none of
  \<^verbatim>\<open>desktop.ini\<close>, \<^verbatim>\<open>thumbs.db\<close>, \<^verbatim>\<open>.DS_Store\<close> exactly as written, and do not start
  with a dot. Subdirectories are left out, and so is everything below them.
\<close>

theorem get_file_list_filter:
  assumes "resolve fs pwd = Some p" and "nodes fs p = Some (Dir t es)"
    and "distinct es" and "list_all valid_name es"
  shows "\<exists>fl. get_file_list fs pwd = ([], Inr fl) \<and> distinct fl \<and>
     fl = filter (\<lambda>f. is_file (nodes fs (p @ [f])) \<and>
                      f \<notin> {''desktop.ini'', ''thumbs.db'', ''.DS_Store''} \<and>
                      hd f \<noteq> CHR ''.'') es \<and>
     set fl \<inter> {f. is_dir (nodes fs (p @ [f]))} = {} \<and>
     (\<forall>f\<in>set fl. CHR ''/'' \<notin> set f)"
proof -
  let ?spec = "\<lambda>f. is_file (nodes fs (p @ [f])) \<and>
      f \<notin> {''desktop.ini'', ''thumbs.db'', ''.DS_Store''} \<and> hd f \<noteq> CHR ''.''"
  have "get_file_list fs pwd = ([], Inr (filter ?spec es))"
    using assms(1,2,4) by (rule get_file_list_dir)
  moreover have "set (filter ?spec es) \<inter> {f. is_dir (nodes fs (p @ [f]))} = {}"
  proof -
    have "\<not> (is_file n \<and> is_dir n)" for n
      by (cases n rule: is_file.cases) simp_all
    then show ?thesis by auto
  qed
  moreover have "\<forall>f\<in>set (filter ?spec es). CHR ''/'' \<notin> set f"
    using assms(4) by (auto simp: list_all_iff valid_name_def)
  ultimately show ?thesis
    using assms(3) by simp
qed

lemma example_mixed_home: "resolve example_mixed ''.'' = Some [''home'']"
  by (simp add: resolve_def example_mixed_def)

theorem get_file_list_filter_witness:
  "resolve example_mixed ''.'' = Some [''home''] \<and>
   get_file_list example_mixed ''.'' = ([], Inr [''notes.txt'', ''Thumbs.db'', ''todo.md'']) \<and>
   distinct [''notes.txt'', ''Thumbs.db'', ''todo.md''] \<and>
   is_dir (nodes example_mixed [''home'', ''photos'']) \<and>
   is_file (nodes example_mixed [''home'', ''photos'', ''cat.jpg'']) \<and>
   is_file (nodes example_mixed [''home'', ''thumbs.db'']) \<and>
   is_file (nodes example_mixed [''home'', ''.profile''])"
proof -
  let ?es = "[''notes.txt'', ''desktop.ini'', ''Thumbs.db'', ''thumbs.db'',
      ''.DS_Store'', ''.profile'', ''photos'', ''todo.md'']"
  have dir: "nodes example_mixed [''home''] = Some (Dir 0 ?es)"
    by (simp add: example_mixed_def)
  have names: "distinct ?es" "list_all valid_name ?es"
    by (simp_all add: valid_name_def)
  have kinds: "is_dir (nodes example_mixed [''home'', ''photos''])"
    "is_file (nodes example_mixed [''home'', ''photos'', ''cat.jpg''])"
    "is_file (nodes example_mixed [''home'', ''thumbs.db''])"
    "is_file (nodes example_mixed [''home'', ''.profile''])"
    by (simp_all add: example_mixed_def)
  have "filter (\<lambda>f. is_file (nodes example_mixed ([''home''] @ [f])) \<and>
      f \<notin> {''desktop.ini'', ''thumbs.db'', ''.DS_Store''} \<and> hd f \<noteq> CHR ''.'') ?es =
      [''notes.txt'', ''Thumbs.db'', ''todo.md'']"
    by (simp add: example_mixed_def)
  with get_file_list_filter [OF example_mixed_home dir names] example_mixed_home kinds
  show ?thesis
    by auto
qed

section \<open>What \<^verbatim>\<open>mkdir\<close> and \<^verbatim>\<open>rename\<close> do to the nodes\<close>

lemma not_file_and_dir: "is_file n \<Longrightarrow> \<not> is_dir n"
  by (cases n rule: is_file.cases) simp_all

lemma is_dir_Some: "is_dir n \<Longrightarrow> \<exists>t es. n = Some (Dir t es)"
  by (cases n rule: is_dir.cases) simp_all

lemma is_dir_exists: "is_dir n \<Longrightarrow> n \<noteq> None"
  by (cases n rule: is_dir.cases) simp_all

lemma is_file_exists: "is_file n \<Longrightarrow> n \<noteq> None"
  by (cases n rule: is_file.cases) simp_all

lemma grows_refl: "grows a a"
  by (simp add: grows_def)

lemma grows_trans: "grows a b \<Longrightarrow> grows b c \<Longrightarrow> grows a c"
  by (cases a rule: is_file.cases; cases b rule: is_file.cases)
     (auto simp: grows_def dest: not_file_and_dir)

lemma grows_file: "grows a b \<Longrightarrow> is_file a \<Longrightarrow> b = a"
  by (simp add: grows_def)

lemma grows_None: "grows None b \<Longrightarrow> \<not> is_file b"
  by (simp add: grows_def)

lemma parent_closedD: "parent_closed c \<Longrightarrow> c (p @ [n]) \<noteq> None \<Longrightarrow> is_dir (c p)"
  unfolding parent_closed_def by blast

lemma parent_is_dir:
  "parent_closed c \<Longrightarrow> c p \<noteq> None \<Longrightarrow> p \<noteq> [] \<Longrightarrow> is_dir (c (butlast p))"
  using parent_closedD [of c "butlast p" "last p"] by simp

lemma nothing_below:
  assumes "parent_closed c" and "\<not> is_dir (c p)"
  shows "c (p @ y # ys) = None"
proof (induction ys arbitrary: y rule: rev_induct)
  case Nil
  with assms show ?case
    using parent_closedD [of c p y] by blast
next
  case (snoc z zs)
  from snoc [of y] have "\<not> is_dir (c (p @ y # zs))"
    by simp
  with assms(1) show ?case
    using parent_closedD [of c "p @ y # zs" z] by fastforce
qed

lemma strict_prefix_None:
  assumes "parent_closed c" and "\<not> is_dir (c p)" and "prefix p x" and "x \<noteq> p"
  shows "c x = None"
proof -
  from assms(3) obtain zs where "x = p @ zs"
    by (auto simp: prefix_def)
  with assms(4) obtain y ys where "x = p @ y # ys"
    by (cases zs) auto
  with assms(1,2) show ?thesis
    by (simp add: nothing_below)
qed

lemma walk_mono:
  "\<forall>x. is_dir (c x) \<longrightarrow> is_dir (c' x) \<Longrightarrow> walk c cur cs = Some r \<Longrightarrow> walk c' cur cs = Some r"
proof (induction cs arbitrary: cur)
  case Nil
  then show ?case by simp
next
  case (Cons a cs)
  from Cons.prems(2) have "is_dir (c cur)"
    by (cases "c cur" rule: is_dir.cases) simp_all
  with Cons.prems(1) have "is_dir (c' cur)"
    by simp
  then obtain t es t' es' where "c cur = Some (Dir t es)" and "c' cur = Some (Dir t' es')"
    using \<open>is_dir (c cur)\<close> by (blast dest: is_dir_Some)
  with Cons show ?case
    by (auto split: if_splits)
qed

lemma resolve_mono:
  assumes "\<forall>x. is_dir (nodes fs x) \<longrightarrow> is_dir (nodes fs' x)" and "cwd fs' = cwd fs"
    and "resolve fs s = Some r"
  shows "resolve fs' s = Some r"
  using assms walk_mono [OF assms(1)] by (auto simp: resolve_def split: if_splits)

lemma mkdir_nodes:
  fixes now :: int
  assumes pc: "parent_closed c" and new: "c p = None" and par: "is_dir (c (butlast p))"
    and ne: "p \<noteq> []"
  defines "c' \<equiv> add_entry now p (c(p \<mapsto> Dir now []))"
  shows "is_dir (c' p)" and "\<And>x. grows (c x) (c' x)" and "parent_closed c'"
proof -
  from par obtain t es where dir: "c (butlast p) = Some (Dir t es)"
    by (blast dest: is_dir_Some)
  from ne have bl: "butlast p \<noteq> p"
    by (metis append_butlast_last_id append_self_conv not_Cons_self)
  let ?d = "Dir now (if last p \<in> set es then es else es @ [last p])"
  from dir bl have c': "c' = (c(p \<mapsto> Dir now []))(butlast p \<mapsto> ?d)"
    by (simp add: c'_def add_entry_def)
  show at_p: "is_dir (c' p)"
    using bl by (simp add: c')
  have other: "c' x = c x" if "x \<noteq> p" "x \<noteq> butlast p" for x
    using that by (simp add: c')
  have at_parent: "is_dir (c' (butlast p))"
    by (simp add: c')
  show grows: "grows (c x) (c' x)" for x
  proof (cases "x = p \<or> x = butlast p")
    case True
    with new par at_p at_parent show ?thesis
      by (auto simp: grows_def dest: not_file_and_dir)
  next
    case False
    then show ?thesis
      by (simp add: other grows_refl)
  qed
  have dirs: "is_dir (c' x)" if "is_dir (c x)" for x
    using grows [of x] that by (simp add: grows_def)
  show "parent_closed c'"
    unfolding parent_closed_def
  proof (intro allI impI)
    fix y n
    assume ex: "c' (y @ [n]) \<noteq> None"
    show "is_dir (c' y)"
    proof (cases "y @ [n] = p")
      case True
      then have "y = butlast p"
        by auto
      with at_parent show ?thesis by simp
    next
      case False
      have "c (y @ [n]) \<noteq> None"
      proof (cases "y @ [n] = butlast p")
        case True
        with par show ?thesis by (metis is_dir_exists)
      next
        case False
        with \<open>y @ [n] \<noteq> p\<close> ex show ?thesis
          by (simp add: other)
      qed
      with pc have "is_dir (c y)"
        by (rule parent_closedD)
      then show ?thesis
        by (rule dirs)
    qed
  qed
qed

lemma rename_file_nodes:
  fixes now :: int
  assumes pc: "parent_closed c" and src: "is_file (c p)" and dst: "\<not> is_dir (c q)"
    and par: "is_dir (c (butlast q))" and ne: "p \<noteq> q" "p \<noteq> []" "q \<noteq> []"
  defines "c' \<equiv> add_entry now q (move_tree p q (del_entry now p c))"
  shows "c' q = c p" and "c' p = None"
    and "\<And>x. x \<noteq> p \<Longrightarrow> x \<noteq> q \<Longrightarrow> c' x = c x \<or> is_dir (c x) \<and> is_dir (c' x)"
proof -
  from src have src_nd: "\<not> is_dir (c p)" and src_ex: "c p \<noteq> None"
    by (blast dest: not_file_and_dir is_file_exists)+
  from ne have blp: "butlast p \<noteq> p" and blq: "butlast q \<noteq> q"
    by (metis append_butlast_last_id append_self_conv not_Cons_self)+
  from pc src_ex ne(2) have "is_dir (c (butlast p))"
    by (rule parent_is_dir)
  then obtain tp ep where dirp: "c (butlast p) = Some (Dir tp ep)"
    by (blast dest: is_dir_Some)
  define c1 where "c1 = del_entry now p c"
  have c1: "c1 = c(butlast p \<mapsto> Dir now (removeAll (last p) ep))"
    by (simp add: c1_def del_entry_def dirp)
  have c1_dir: "is_dir (c1 x) = is_dir (c x)" for x
    using dirp by (simp add: c1)
  have c1_other: "c1 x = c x" if "x \<noteq> butlast p" for x
    using that by (simp add: c1)
  have below_p: "c x = None" if "prefix p x" "x \<noteq> p" for x
    using pc src_nd that by (rule strict_prefix_None)
  have below_q: "c x = None" if "prefix q x" "x \<noteq> q" for x
    using pc dst that by (rule strict_prefix_None)
  have npq: "\<not> prefix q p"
    using below_q [of p] src_ex ne(1) by blast
  have par_q: "\<not> prefix p (butlast q)" "\<not> prefix q (butlast q)"
  proof -
    show "\<not> prefix p (butlast q)"
      using below_p [of "butlast q"] par src_nd by (metis is_dir_exists)
    show "\<not> prefix q (butlast q)"
      using blq by (metis prefix_order.antisym prefixeq_butlast)
  qed
  define c2 where "c2 = move_tree p q c1"
  have c2_q: "c2 q = c p"
    using blp by (simp add: c2_def move_tree_def c1)
  have c2_p: "c2 p = None"
    using npq by (simp add: c2_def move_tree_def)
  have c2_other: "c2 x = c1 x" if "x \<noteq> p" "x \<noteq> q" for x
  proof (cases "prefix q x")
    case True
    then obtain zs where x: "x = q @ zs"
      by (auto simp: prefix_def)
    with that obtain y ys where zs: "zs = y # ys"
      by (cases zs) auto
    have "p @ zs \<noteq> butlast p"
      by (metis append_butlast_last_id append.assoc append_self_conv ne(2) append_is_Nil_conv
            not_Cons_self2)
    then have "c1 (p @ zs) = c (p @ zs)"
      by (rule c1_other)
    also have "\<dots> = None"
      using below_p [of "p @ zs"] zs by simp
    finally have "c2 x = None"
      using True x by (simp add: c2_def move_tree_def)
    moreover have "c x = None"
      using below_q [OF True that(2)] .
    moreover have "x \<noteq> butlast p"
      using \<open>c x = None\<close> dirp by auto
    ultimately show ?thesis
      by (simp add: c1_other)
  next
    case False
    show ?thesis
    proof (cases "prefix p x")
      case True
      then have "c x = None"
        using that(1) by (rule below_p)
      moreover from this dirp have "x \<noteq> butlast p"
        by auto
      ultimately show ?thesis
        using True False by (simp add: c2_def move_tree_def c1_other)
    next
      case np: False
      with False show ?thesis
        by (simp add: c2_def move_tree_def)
    qed
  qed
  have "butlast q \<noteq> p"
    using par src_nd by auto
  with blq have "c2 (butlast q) = c1 (butlast q)"
    by (intro c2_other) auto
  with par obtain tq eq where dirq: "c2 (butlast q) = Some (Dir tq eq)"
    using c1_dir [of "butlast q"] by (metis is_dir_Some)
  have c': "c' = c2(butlast q \<mapsto> Dir now (if last q \<in> set eq then eq else eq @ [last q]))"
    by (simp add: c'_def c1_def [symmetric] c2_def [symmetric] add_entry_def dirq)
  show "c' q = c p"
    using blq c2_q by (simp add: c')
  show "c' p = None"
    using \<open>butlast q \<noteq> p\<close> c2_p by (simp add: c')
  show "c' x = c x \<or> is_dir (c x) \<and> is_dir (c' x)" if "x \<noteq> p" "x \<noteq> q" for x
  proof (cases "x = butlast q")
    case True
    with par show ?thesis
      by (simp add: c')
  next
    case False
    then have "c' x = c1 x"
      using that by (simp add: c' c2_other)
    then show ?thesis
      using c1_dir [of x] c1_other [of x] \<open>is_dir (c (butlast p))\<close>
      by (cases "x = butlast p") auto
  qed
qed

lemma os_mkdir_effect:
  assumes "os_mkdir s fs = Inr fs'" and "parent_closed (nodes fs)"
  shows "cwd fs' = cwd fs" and "clock fs' = clock fs" and "parent_closed (nodes fs')"
    and "\<And>x. grows (nodes fs x) (nodes fs' x)"
proof -
  from assms(1) obtain p where p: "resolve fs (strip_slashes s) = Some p" "p \<noteq> []"
      "nodes fs p = None"
    and par: "is_dir (nodes fs (butlast p))"
    and fs': "fs' = fs\<lparr>nodes := add_entry (clock fs) p ((nodes fs)(p \<mapsto> Dir (clock fs) []))\<rparr>"
    by (auto simp: os_mkdir_def split: option.splits if_splits node.splits)
  note eff = mkdir_nodes [OF assms(2) p(3) par p(2), where now = "clock fs"]
  show "cwd fs' = cwd fs" and "clock fs' = clock fs"
    by (simp_all add: fs')
  show "parent_closed (nodes fs')"
    using eff(3) by (simp add: fs')
  show "grows (nodes fs x) (nodes fs' x)" for x
    using eff(2) [of x] by (simp add: fs')
qed

lemma os_rename_file_effect:
  assumes "os_rename src dst fs = Inr fs'" and pc: "parent_closed (nodes fs)"
    and "resolve fs src = Some p" and src: "is_file (nodes fs p)"
    and "resolve fs dst = Some q" and "p \<noteq> q"
  shows "cwd fs' = cwd fs" and "clock fs' = clock fs" and "parent_closed (nodes fs')"
    and "nodes fs' q = nodes fs p" and "nodes fs' p = None"
    and "\<And>x. x \<noteq> p \<Longrightarrow> x \<noteq> q \<Longrightarrow> grows (nodes fs x) (nodes fs' x)"
    and "\<And>x. is_dir (nodes fs x) \<Longrightarrow> is_dir (nodes fs' x)"
proof -
  from src obtain m where is_f: "nodes fs p = Some (File m)"
    by (cases "nodes fs p" rule: is_file.cases) simp_all
  from assms(1,3,5,6) is_f have ne: "p \<noteq> []" "q \<noteq> []"
    and par: "is_dir (nodes fs (butlast q))" and dst: "\<not> is_dir (nodes fs q)"
    and fs': "fs' = fs\<lparr>nodes := add_entry (clock fs) q
        (move_tree p q (del_entry (clock fs) p (nodes fs)))\<rparr>"
    by (auto simp: os_rename_def split: if_splits option.splits node.splits list.splits)
  note eff = rename_file_nodes [OF pc src dst par \<open>p \<noteq> q\<close> ne, where now = "clock fs"]
  show "cwd fs' = cwd fs" and "clock fs' = clock fs"
    by (simp_all add: fs')
  show at_q: "nodes fs' q = nodes fs p" and at_p: "nodes fs' p = None"
    using eff(1,2) by (simp_all add: fs')
  have other: "nodes fs' x = nodes fs x \<or> is_dir (nodes fs x) \<and> is_dir (nodes fs' x)"
    if "x \<noteq> p" "x \<noteq> q" for x
    using eff(3) [OF that] by (simp add: fs')
  show "grows (nodes fs x) (nodes fs' x)" if "x \<noteq> p" "x \<noteq> q" for x
    using other [OF that] by (auto simp: grows_def dest: not_file_and_dir is_dir_exists)
  show dirs: "is_dir (nodes fs' x)" if "is_dir (nodes fs x)" for x
  proof -
    from that src dst have "x \<noteq> p" "x \<noteq> q"
      by (auto dest: not_file_and_dir)
    from other [OF this] that show ?thesis by auto
  qed
  show "parent_closed (nodes fs')"
    unfolding parent_closed_def
  proof (intro allI impI)
    fix y n
    assume ex: "nodes fs' (y @ [n]) \<noteq> None"
    with at_p have "y @ [n] \<noteq> p"
      by auto
    show "is_dir (nodes fs' y)"
    proof (cases "y @ [n] = q")
      case True
      then have "y = butlast q"
        by auto
      with par show ?thesis
        by (simp add: dirs)
    next
      case False
      from other [OF \<open>y @ [n] \<noteq> p\<close> False] ex have "nodes fs (y @ [n]) \<noteq> None"
        by (auto dest: is_dir_exists)
      with pc have "is_dir (nodes fs y)"
        by (rule parent_closedD)
      then show ?thesis
        by (rule dirs)
    qed
  qed
qed

section \<open>The mover\<close>

lemma grows_not_file: "grows a b \<Longrightarrow> \<not> is_file a \<Longrightarrow> \<not> is_file b"
  by (cases a rule: is_dir.cases) (auto simp: grows_def dest: not_file_and_dir)

lemma grows_dir: "grows a b \<Longrightarrow> is_dir a \<Longrightarrow> is_dir b"
  by (simp add: grows_def)

lemma os_rename_resolves:
  "os_rename src dst fs = Inr fs' \<Longrightarrow> \<exists>p q. resolve fs src = Some p \<and> resolve fs dst = Some q"
  by (auto simp: os_rename_def split: option.splits)

lemma move_files_effect:
  assumes "move_files pwd k files fs = (evs, fs', None)"
    and "parent_closed (nodes fs)" and "resolve fs pwd = Some d"
    and "valid_name k" and "list_all valid_name files" and "distinct files"
    and "\<forall>f\<in>set files. is_file (nodes fs (d @ [f]))"
  shows "parent_closed (nodes fs') \<and> cwd fs' = cwd fs \<and>
     (\<forall>x. is_dir (nodes fs x) \<longrightarrow> is_dir (nodes fs' x)) \<and>
     (\<forall>f\<in>set files. nodes fs' (d @ [k, f]) = nodes fs (d @ [f]) \<and>
        \<not> is_file (nodes fs' (d @ [f]))) \<and>
     (\<forall>x. (\<forall>f\<in>set files. x \<noteq> d @ [f] \<and> x \<noteq> d @ [k, f]) \<longrightarrow>
        grows (nodes fs x) (nodes fs' x)) \<and>
     evs = map (\<lambda>f. Rename (path_join pwd f) (path_join (path_join pwd k) f)) files"
  using assms
proof (induction files arbitrary: fs evs)
  case Nil
  then show ?case
    by (simp add: grows_refl)
next
  case (Cons f rest)
  let ?src = "path_join pwd f" and ?dst = "path_join (path_join pwd k) f"
  let ?p = "d @ [f]" and ?q = "d @ [k, f]"
  note pc = \<open>parent_closed (nodes fs)\<close> and pwd = \<open>resolve fs pwd = Some d\<close>
  from Cons.prems(5) have ok: "valid_name f" "list_all valid_name rest"
    by simp_all
  from Cons.prems(6) have fresh: "f \<notin> set rest" "distinct rest"
    by simp_all
  from Cons.prems(7) have src: "is_file (nodes fs ?p)"
    and srcs: "\<forall>f'\<in>set rest. is_file (nodes fs (d @ [f']))"
    by simp_all
  from Cons.prems(1) obtain fs1 evs' where mv: "os_rename ?src ?dst fs = Inr fs1"
    and run: "move_files pwd k rest fs1 = (evs', fs', None)"
    and evs: "evs = Rename ?src ?dst # evs'"
    by (auto simp: Let_def split: sum.splits prod.splits)
  from pc src have dir: "is_dir (nodes fs d)"
    by (intro parent_closedD [of _ d f]) (auto dest: is_file_exists)
  with pwd ok have p: "resolve fs ?src = Some ?p"
    by (simp add: resolve_join)
  from pwd dir \<open>valid_name k\<close> have "resolve fs (path_join pwd k) = Some (d @ [k])"
    by (simp add: resolve_join)
  then have "resolve fs ?dst = (if is_dir (nodes fs (d @ [k])) then Some ?q else None)"
    using ok(1) by (simp add: resolve_join)
  with os_rename_resolves [OF mv] have q: "resolve fs ?dst = Some ?q"
    by (auto split: if_splits)
  have "?p \<noteq> ?q"
    by simp
  note eff = os_rename_file_effect [OF mv pc p src q this]
  from eff(7) have mono: "\<forall>x. is_dir (nodes fs x) \<longrightarrow> is_dir (nodes fs1 x)"
    by blast
  from mono eff(1) pwd have pwd1: "resolve fs1 pwd = Some d"
    by (rule resolve_mono)
  have keep: "nodes fs1 (d @ [f']) = nodes fs (d @ [f'])" if "f' \<in> set rest" for f'
  proof -
    from that fresh have "d @ [f'] \<noteq> ?p" "d @ [f'] \<noteq> ?q"
      by auto
    then have "grows (nodes fs (d @ [f'])) (nodes fs1 (d @ [f']))"
      by (rule eff(6))
    with srcs that show ?thesis
      by (metis grows_file)
  qed
  with srcs have srcs1: "\<forall>f'\<in>set rest. is_file (nodes fs1 (d @ [f']))"
    by simp
  note IH = Cons.IH [OF run eff(3) pwd1 \<open>valid_name k\<close> ok(2) fresh(2) srcs1]
  from IH have frame: "grows (nodes fs1 x) (nodes fs' x)"
    if "\<forall>f'\<in>set rest. x \<noteq> d @ [f'] \<and> x \<noteq> d @ [k, f']" for x
    using that by blast
  have at_q: "nodes fs' ?q = nodes fs ?p"
  proof -
    from fresh have "grows (nodes fs1 ?q) (nodes fs' ?q)"
      by (intro frame) auto
    with eff(4) src show ?thesis
      by (metis grows_file)
  qed
  have at_p: "\<not> is_file (nodes fs' ?p)"
  proof -
    from fresh have "grows (nodes fs1 ?p) (nodes fs' ?p)"
      by (intro frame) auto
    with eff(5) show ?thesis
      by (metis grows_None)
  qed
  have others: "grows (nodes fs x) (nodes fs' x)"
    if "\<forall>f'\<in>set (f # rest). x \<noteq> d @ [f'] \<and> x \<noteq> d @ [k, f']" for x
  proof -
    from that have "grows (nodes fs x) (nodes fs1 x)"
      by (intro eff(6)) simp_all
    moreover from that have "grows (nodes fs1 x) (nodes fs' x)"
      by (intro frame) simp
    ultimately show ?thesis
      by (rule grows_trans)
  qed
  from IH mono have "\<forall>x. is_dir (nodes fs x) \<longrightarrow> is_dir (nodes fs' x)"
    by blast
  moreover from IH keep have "\<forall>f'\<in>set rest. nodes fs' (d @ [k, f']) = nodes fs (d @ [f']) \<and>
      \<not> is_file (nodes fs' (d @ [f']))"
    by simp
  moreover from IH evs
  have "evs = map (\<lambda>f. Rename (path_join pwd f) (path_join (path_join pwd k) f)) (f # rest)"
    by simp
  moreover from IH eff(1) have "parent_closed (nodes fs')" "cwd fs' = cwd fs"
    by simp_all
  ultimately show ?case
    using at_q at_p others by simp
qed

lemma path_isdir_mono:
  assumes "\<forall>x. is_dir (nodes fs x) \<longrightarrow> is_dir (nodes fs' x)" and "cwd fs' = cwd fs"
    and "path_isdir fs s"
  shows "path_isdir fs' s"
proof -
  from assms(3) obtain r where r: "resolve fs s = Some r" "is_dir (nodes fs r)"
    by (auto simp: path_isdir_is_dir lookup_def split: option.splits)
  from assms(1,2) r(1) have "resolve fs' s = Some r"
    by (rule resolve_mono)
  with assms(1) r(2) show ?thesis
    by (simp add: path_isdir_is_dir lookup_def)
qed

lemma make_folder_effect:
  assumes "make_folder pwd k fs = (evs, fs', None)" and "parent_closed (nodes fs)"
  shows "parent_closed (nodes fs') \<and> cwd fs' = cwd fs \<and>
     (\<forall>x. grows (nodes fs x) (nodes fs' x)) \<and>
     filter is_rename evs = [] \<and> (\<forall>s. Mkdir s \<in> set evs \<longrightarrow> \<not> path_isdir fs s)"
proof (cases "path_exists fs (path_join pwd k)")
  case True
  with assms show ?thesis
    by (simp add: make_folder_def grows_refl)
next
  case False
  with assms(1) have mk: "os_mkdir (path_join pwd k) fs = Inr fs'"
    and evs: "evs = [Mkdir (path_join pwd k)]"
    by (auto simp: make_folder_def split: sum.splits)
  from False have "\<not> path_isdir fs (path_join pwd k)"
    by (auto dest: isdir_exists)
  with os_mkdir_effect [OF mk assms(2)] evs show ?thesis
    by simp
qed

lemma move_files_renames: "list_all is_rename (map (\<lambda>f. Rename (a f) (b f)) files)"
  by (induction files) simp_all

lemma do_move_effect:
  assumes "do_move pwd g fs = (evs, fs', None)"
    and "parent_closed (nodes fs)" and "resolve fs pwd = Some d" and "is_dir (nodes fs d)"
    and "list_all valid_name (map fst g)" and "list_all valid_name (concat (map snd g))"
    and "distinct (concat (map snd g))"
    and "\<forall>f\<in>set (concat (map snd g)). is_file (nodes fs (d @ [f]))"
  shows "parent_closed (nodes fs') \<and> cwd fs' = cwd fs \<and>
     (\<forall>x. is_dir (nodes fs x) \<longrightarrow> is_dir (nodes fs' x)) \<and>
     (\<forall>k files f. (k, files) \<in> set g \<longrightarrow> f \<in> set files \<longrightarrow>
        nodes fs' (d @ [k, f]) = nodes fs (d @ [f]) \<and> \<not> is_file (nodes fs' (d @ [f]))) \<and>
     (\<forall>x. (\<forall>k files f. (k, files) \<in> set g \<longrightarrow> f \<in> set files \<longrightarrow>
            x \<noteq> d @ [f] \<and> x \<noteq> d @ [k, f]) \<longrightarrow>
        grows (nodes fs x) (nodes fs' x)) \<and>
     filter is_rename evs =
       concat (map (\<lambda>(k, files).
         map (\<lambda>f. Rename (path_join pwd f) (path_join (path_join pwd k) f)) files) g) \<and>
     (\<forall>s. Mkdir s \<in> set evs \<longrightarrow> \<not> path_isdir fs s)"
  using assms
proof (induction g arbitrary: fs evs)
  case Nil
  then show ?case
    by (simp add: grows_refl)
next
  case (Cons kf rest)
  obtain k files where kf: "kf = (k, files)"
    by (cases kf)
  note pc = \<open>parent_closed (nodes fs)\<close> and pwd = \<open>resolve fs pwd = Some d\<close>
  from Cons.prems(5,6) kf have ok: "valid_name k" "list_all valid_name files"
    "list_all valid_name (map fst rest)" "list_all valid_name (concat (map snd rest))"
    by simp_all
  from Cons.prems(7) kf have fresh: "distinct files" "distinct (concat (map snd rest))"
    "set files \<inter> set (concat (map snd rest)) = {}"
    by simp_all
  from Cons.prems(8) kf have srcs: "\<forall>f\<in>set files. is_file (nodes fs (d @ [f]))"
    "\<forall>f\<in>set (concat (map snd rest)). is_file (nodes fs (d @ [f]))"
    by simp_all
  from Cons.prems(1) kf obtain evs1 fs1 evs2 fs2 evs3
    where mk: "make_folder pwd k fs = (evs1, fs1, None)"
      and mv: "move_files pwd k files fs1 = (evs2, fs2, None)"
      and run: "do_move pwd rest fs2 = (evs3, fs', None)"
      and evs: "evs = evs1 @ evs2 @ evs3"
    by (auto split: prod.splits option.splits)
  note eff1 = make_folder_effect [OF mk pc]
  then have grows1: "grows (nodes fs x) (nodes fs1 x)" for x
    by blast
  then have mono1: "\<forall>x. is_dir (nodes fs x) \<longrightarrow> is_dir (nodes fs1 x)"
    by (blast dest: grows_dir)
  moreover from eff1 have "cwd fs1 = cwd fs"
    by simp
  ultimately have pwd1: "resolve fs1 pwd = Some d"
    using pwd by (rule resolve_mono)
  have keep1: "nodes fs1 (d @ [f]) = nodes fs (d @ [f])" if "is_file (nodes fs (d @ [f]))" for f
    using grows1 [of "d @ [f]"] that by (rule grows_file)
  with srcs have srcs1: "\<forall>f\<in>set files. is_file (nodes fs1 (d @ [f]))"
    by simp
  from eff1 have pc1: "parent_closed (nodes fs1)"
    by simp
  note eff2 = move_files_effect [OF mv pc1 pwd1 ok(1,2) fresh(1) srcs1]
  then have grows2: "grows (nodes fs1 x) (nodes fs2 x)"
    if "\<forall>f\<in>set files. x \<noteq> d @ [f] \<and> x \<noteq> d @ [k, f]" for x
    using that by blast
  from eff2 have mono2: "\<forall>x. is_dir (nodes fs1 x) \<longrightarrow> is_dir (nodes fs2 x)"
    by blast
  from eff1 eff2 have cwd2: "cwd fs2 = cwd fs1" "cwd fs1 = cwd fs"
    by simp_all
  from mono2 cwd2(1) pwd1 have pwd2: "resolve fs2 pwd = Some d"
    by (rule resolve_mono)
  from mono1 mono2 Cons.prems(4) have dir2: "is_dir (nodes fs2 d)"
    by blast
  have keep2: "nodes fs2 (d @ [f]) = nodes fs (d @ [f])"
    if "f \<in> set (concat (map snd rest))" for f
  proof -
    from that fresh(3) have "\<forall>f'\<in>set files. d @ [f] \<noteq> d @ [f'] \<and> d @ [f] \<noteq> d @ [k, f']"
      by auto
    then have "grows (nodes fs1 (d @ [f])) (nodes fs2 (d @ [f]))"
      by (rule grows2)
    with srcs(2) that keep1 [of f] show ?thesis
      by (metis grows_file)
  qed
  with srcs(2) have srcs2: "\<forall>f\<in>set (concat (map snd rest)). is_file (nodes fs2 (d @ [f]))"
    by simp
  from eff2 have pc2: "parent_closed (nodes fs2)"
    by simp
  note IH = Cons.IH [OF run pc2 pwd2 dir2 ok(3,4) fresh(2) srcs2]
  then have grows3: "grows (nodes fs2 x) (nodes fs' x)"
    if "\<forall>k' files' f'. (k', files') \<in> set rest \<longrightarrow> f' \<in> set files' \<longrightarrow>
          x \<noteq> d @ [f'] \<and> x \<noteq> d @ [k', f']" for x
    using that by blast
  have here: "nodes fs' (d @ [k, f]) = nodes fs (d @ [f]) \<and> \<not> is_file (nodes fs' (d @ [f]))"
    if f: "f \<in> set files" for f
  proof -
    have other: "f' \<noteq> f" if "(k', files') \<in> set rest" "f' \<in> set files'" for k' files' f'
      using that f fresh(3) by force
    from eff2 f have at: "nodes fs2 (d @ [k, f]) = nodes fs1 (d @ [f])"
      and gone: "\<not> is_file (nodes fs2 (d @ [f]))"
      by blast+
    from srcs(1) f have src: "is_file (nodes fs (d @ [f]))"
      by simp
    have "grows (nodes fs2 (d @ [k, f])) (nodes fs' (d @ [k, f]))"
      by (rule grows3) (auto dest: other)
    with at src keep1 [OF src] have "nodes fs' (d @ [k, f]) = nodes fs (d @ [f])"
      by (metis grows_file)
    moreover have "grows (nodes fs2 (d @ [f])) (nodes fs' (d @ [f]))"
      by (rule grows3) (auto dest: other)
    with gone have "\<not> is_file (nodes fs' (d @ [f]))"
      by (blast dest: grows_not_file)
    ultimately show ?thesis ..
  qed
  have there: "nodes fs' (d @ [k', f]) = nodes fs (d @ [f]) \<and> \<not> is_file (nodes fs' (d @ [f]))"
    if "(k', files') \<in> set rest" "f \<in> set files'" for k' files' f
  proof -
    from that have "f \<in> set (concat (map snd rest))"
      by force
    with IH that keep2 show ?thesis
      by metis
  qed
  have frame: "grows (nodes fs x) (nodes fs' x)"
    if x: "\<forall>k' files' f. (k', files') \<in> set (kf # rest) \<longrightarrow> f \<in> set files' \<longrightarrow>
          x \<noteq> d @ [f] \<and> x \<noteq> d @ [k', f]" for x
  proof -
    from x kf have "grows (nodes fs1 x) (nodes fs2 x)"
      by (intro grows2) simp
    moreover from x have "grows (nodes fs2 x) (nodes fs' x)"
      by (intro grows3) simp
    ultimately show ?thesis
      using grows1 [of x] by (blast intro: grows_trans)
  qed
  have renames: "filter is_rename evs =
      concat (map (\<lambda>(k, files).
        map (\<lambda>f. Rename (path_join pwd f) (path_join (path_join pwd k) f)) files) (kf # rest))"
  proof -
    from eff2 have evs2: "evs2 = map (\<lambda>f. Rename (path_join pwd f) (path_join (path_join pwd k) f)) files"
      by simp
    then have "filter is_rename evs2 = evs2"
      using move_files_renames [of "path_join pwd" "\<lambda>f. path_join (path_join pwd k) f" files]
      by (simp add: list_all_iff)
    with eff1 IH evs evs2 kf show ?thesis
      by simp
  qed
  have mkdirs: "\<not> path_isdir fs s" if "Mkdir s \<in> set evs" for s
  proof -
    from eff2 have "Mkdir s \<notin> set evs2"
      by auto
    with that evs consider "Mkdir s \<in> set evs1" | "Mkdir s \<in> set evs3"
      by auto
    then show ?thesis
    proof cases
      case 1
      with eff1 show ?thesis by blast
    next
      case 2
      with IH have "\<not> path_isdir fs2 s"
        by blast
      moreover from mono1 mono2 have "\<forall>x. is_dir (nodes fs x) \<longrightarrow> is_dir (nodes fs2 x)"
        by blast
      ultimately show ?thesis
        using cwd2 path_isdir_mono [of fs fs2 s] by auto
    qed
  qed
  from IH mono1 mono2 have "\<forall>x. is_dir (nodes fs x) \<longrightarrow> is_dir (nodes fs' x)"
    by blast
  moreover from IH cwd2 have "parent_closed (nodes fs')" "cwd fs' = cwd fs"
    by simp_all
  moreover from here there kf
  have "\<forall>k' files' f. (k', files') \<in> set (kf # rest) \<longrightarrow> f \<in> set files' \<longrightarrow>
      nodes fs' (d @ [k', f]) = nodes fs (d @ [f]) \<and> \<not> is_file (nodes fs' (d @ [f]))"
    by auto
  ultimately show ?case
    using frame renames mkdirs by blast
qed

lemma move_files_no_mkdir:
  "move_files pwd k files fs = (evs, fs', r) \<Longrightarrow> Mkdir s \<notin> set evs"
  by (induction files arbitrary: fs evs) (auto simp: Let_def split: sum.splits prod.splits)

lemma do_move_mkdirs:
  "do_move pwd g fs = (evs, fs', r) \<Longrightarrow> Mkdir s \<in> set evs \<Longrightarrow>
   \<exists>k\<in>fst ` set g. s = path_join pwd k"
proof (induction g arbitrary: fs evs fs' r)
  case Nil
  then show ?case by simp
next
  case (Cons kf rest)
  obtain k files where kf: "kf = (k, files)"
    by (cases kf)
  obtain evs1 fs1 r1 where mk: "make_folder pwd k fs = (evs1, fs1, r1)"
    by (cases "make_folder pwd k fs") auto
  obtain evs2 fs2 r2 where mv: "move_files pwd k files fs1 = (evs2, fs2, r2)"
    by (cases "move_files pwd k files fs1") auto
  obtain evs3 fs3 r3 where run: "do_move pwd rest fs2 = (evs3, fs3, r3)"
    by (cases "do_move pwd rest fs2") auto
  from mk have one: "Mkdir s \<in> set evs1 \<Longrightarrow> s = path_join pwd k"
    by (auto simp: make_folder_def split: if_splits sum.splits)
  from Cons.prems kf mk mv run
  have "Mkdir s \<in> set evs1 \<or> Mkdir s \<in> set evs2 \<or> (Mkdir s \<in> set evs3 \<and> r1 = None \<and> r2 = None)"
    by (auto split: option.splits)
  with one move_files_no_mkdir [OF mv] Cons.IH [OF run] kf show ?case
    by auto
qed

lemma group_by_date_keys:
  assumes "group_by_date S fs pwd fl fmt = Inr g" and "(k, files) \<in> set g"
  shows "\<exists>f\<in>set fl. get_file_time_str S fs pwd f fmt = Inr k"
proof -
  from assms(1) have "group_loop S fs pwd fmt fl [] = Inr g"
    by (simp add: group_by_date_def)
  then have "[] \<notin> snd ` set g"
    by (rule group_loop_nonempty) simp
  with assms(2) have "files \<noteq> []"
    by force
  then obtain f where "f \<in> set files"
    by (cases files) auto
  with group_by_date_members [OF assms] show ?thesis
    by auto
qed

lemma group_by_date_files:
  assumes "group_by_date S fs pwd fl fmt = Inr g"
  shows "mset (concat (map snd g)) = mset fl"
  using assms group_loop_mset [of S fs pwd fmt fl "[]" g] by (simp add: group_by_date_def)

text \<open>
  C2, amended. Take a run without the simulation flag, on a directory whose entries
  have pairwise different, well-formed names, that ends normally, and in which every
  group key is a well-formed entry name. Then every file the lister returned is, with
  its timestamp, a regular file at \<^verbatim>\<open>target_dir/<GroupKey>/<name>\<close>, where the key is the
  formatted timestamp of the file, and no regular file of that name is left directly
  under the target directory. After the preview the run makes the \<^verbatim>\<open>rename\<close> calls
  group by group and, inside a group, in the group's order, each to the same name below
  the group's directory; every \<^verbatim>\<open>mkdir\<close> call names a group's directory, and no
  directory that existed before the run is created.
\<close>

theorem move_places_files:
  assumes "resolve fs (folder_path a) = Some d" and "nodes fs d = Some (Dir t es)"
    and "distinct es" and "list_all valid_name es" and "parent_closed (nodes fs)"
    and "\<not> simulation a"
    and "main S a fs = (evs, fs', None)"
    and "get_file_list fs (folder_path a) = ([], Inr fl)"
    and "\<forall>f\<in>set fl. \<forall>k. get_file_time_str S fs (folder_path a) f (date_string a) = Inr k \<longrightarrow>
           valid_name k"
  shows "(\<forall>f\<in>set fl. \<exists>k. get_file_time_str S fs (folder_path a) f (date_string a) = Inr k \<and>
            path_isfile fs' (path_join (path_join (folder_path a) k) f) \<and>
            lookup fs' (path_join (path_join (folder_path a) k) f) =
              lookup fs (path_join (folder_path a) f) \<and>
            \<not> path_isfile fs' (path_join (folder_path a) f)) \<and>
         (\<exists>g mv. group_by_date S fs (folder_path a) fl (date_string a) = Inr g \<and>
            evs = print_group_info g @ mv \<and>
            filter is_rename mv =
              concat (map (\<lambda>(k, files).
                map (\<lambda>f. Rename (path_join (folder_path a) f)
                             (path_join (path_join (folder_path a) k) f)) files) g) \<and>
            (\<forall>s. Mkdir s \<in> set mv \<longrightarrow>
               (\<exists>k\<in>fst ` set g. s = path_join (folder_path a) k) \<and> \<not> path_isdir fs s))"
proof -
  let ?pwd = "folder_path a" and ?fmt = "date_string a"
  let ?key = "\<lambda>f. get_file_time_str S fs ?pwd f ?fmt"
  note pwd = \<open>resolve fs ?pwd = Some d\<close> and pc = \<open>parent_closed (nodes fs)\<close>
  from assms(2) have dir: "is_dir (nodes fs d)"
    by simp
  from assms(7) obtain g where scan: "scan S a fs = ([], Inr g)"
    by (blast dest: main_ok_scan)
  with assms(8) have g: "group_by_date S fs ?pwd fl ?fmt = Inr g"
    by (simp add: scan_def)
  from main_moves [OF assms(7,6) scan] obtain mv
    where mv: "do_move ?pwd g fs = (mv, fs', None)" and evs: "evs = print_group_info g @ mv"
    by blast
  from get_file_list_dir [OF assms(1,2,4)] assms(3,8)
  have fl: "distinct fl" "set fl \<subseteq> set es" "\<forall>f\<in>set fl. is_file (nodes fs (d @ [f]))"
    by auto
  note all = group_by_date_files [OF g]
  then have members: "set (concat (map snd g)) = set fl"
    by (metis set_mset_mset)
  from all fl(1) have "distinct (concat (map snd g))"
    by (metis mset_eq_imp_distinct_iff)
  moreover from members fl(2) assms(4) have names: "list_all valid_name (concat (map snd g))"
    unfolding list_all_iff by blast
  moreover have "list_all valid_name (map fst g)"
    unfolding list_all_iff
  proof
    fix k assume "k \<in> set (map fst g)"
    then obtain files where "(k, files) \<in> set g"
      by auto
    from group_by_date_keys [OF g this] assms(9) show "valid_name k"
      by blast
  qed
  moreover from members fl(3) have "\<forall>f\<in>set (concat (map snd g)). is_file (nodes fs (d @ [f]))"
    by simp
  ultimately have eff: "parent_closed (nodes fs') \<and> cwd fs' = cwd fs \<and>
     (\<forall>x. is_dir (nodes fs x) \<longrightarrow> is_dir (nodes fs' x)) \<and>
     (\<forall>k files f. (k, files) \<in> set g \<longrightarrow> f \<in> set files \<longrightarrow>
        nodes fs' (d @ [k, f]) = nodes fs (d @ [f]) \<and> \<not> is_file (nodes fs' (d @ [f]))) \<and>
     filter is_rename mv =
       concat (map (\<lambda>(k, files).
         map (\<lambda>f. Rename (path_join ?pwd f) (path_join (path_join ?pwd k) f)) files) g) \<and>
     (\<forall>s. Mkdir s \<in> set mv \<longrightarrow> \<not> path_isdir fs s)"
    using do_move_effect [OF mv pc pwd dir] by blast
  then have pwd': "resolve fs' ?pwd = Some d" and dir': "is_dir (nodes fs' d)"
    using pwd dir resolve_mono [of fs fs' ?pwd d] by blast+
  have placed: "\<exists>k. ?key f = Inr k \<and>
      path_isfile fs' (path_join (path_join ?pwd k) f) \<and>
      lookup fs' (path_join (path_join ?pwd k) f) = lookup fs (path_join ?pwd f) \<and>
      \<not> path_isfile fs' (path_join ?pwd f)" if f: "f \<in> set fl" for f
  proof -
    from f members obtain k files where kf: "(k, files) \<in> set g" "f \<in> set files"
      by force
    from group_by_date_members [OF g kf(1)] kf(2) have key: "?key f = Inr k"
      by simp
    with assms(9) f have k: "valid_name k"
      by blast
    from f fl(2) assms(4) have n: "valid_name f"
      unfolding list_all_iff by blast
    from fl(3) f have src: "is_file (nodes fs (d @ [f]))"
      by simp
    from eff kf have at: "nodes fs' (d @ [k, f]) = nodes fs (d @ [f])"
      and gone: "\<not> is_file (nodes fs' (d @ [f]))"
      by blast+
    from at src have "nodes fs' ((d @ [k]) @ [f]) \<noteq> None"
      by (auto dest: is_file_exists)
    moreover from eff have "parent_closed (nodes fs')"
      by simp
    ultimately have sub: "is_dir (nodes fs' (d @ [k]))"
      by (intro parent_closedD [of "nodes fs'" "d @ [k]" f])
    from pwd' dir' k have "resolve fs' (path_join ?pwd k) = Some (d @ [k])"
      by (simp add: resolve_join)
    from lookup_join [OF this sub n] at
    have new: "lookup fs' (path_join (path_join ?pwd k) f) = nodes fs (d @ [f])"
      by simp
    moreover from lookup_join [OF pwd dir n]
    have old: "lookup fs (path_join ?pwd f) = nodes fs (d @ [f])" .
    moreover from lookup_join [OF pwd' dir' n] gone
    have "\<not> path_isfile fs' (path_join ?pwd f)"
      by (simp add: path_isfile_is_file)
    moreover from new src have "path_isfile fs' (path_join (path_join ?pwd k) f)"
      by (simp add: path_isfile_is_file)
    ultimately show ?thesis
      using key by simp
  qed
  have "\<forall>s. Mkdir s \<in> set mv \<longrightarrow>
      (\<exists>k\<in>fst ` set g. s = path_join ?pwd k) \<and> \<not> path_isdir fs s"
    using eff do_move_mkdirs [OF mv] by blast
  with placed g evs eff show ?thesis
    by blast
qed

lemma example_parent_closed: "parent_closed (nodes example_fs)"
  unfolding parent_closed_def example_fs_def
  by (auto simp: append_eq_Cons_conv split: if_splits)

lemma example_resolve_d: "resolve example_fs ''d'' = Some [''d'']"
  by (simp add: resolve_def example_fs_def)

lemma example_run_result:
  "snd (snd (main example_strftime example_args example_fs)) = None"
  by (simp add: main_unfold preview_pass_def move_pass_def example_scan)
     (simp add: example_args_def make_folder_def fs_eval os_mkdir_def strip_slashes_def os_rename_def
        example_fs_def add_entry_def del_entry_def move_tree_def)

lemma example_no_pattern_time_strs:
  "get_file_time_str example_strftime example_fs ''d'' ''a.txt'' [] = Inr []"
  "get_file_time_str example_strftime example_fs ''d'' ''b.txt'' [] = Inr []"
  by (simp_all add: get_file_time_str_def getmtime_def example_lookup_a example_lookup_b
        example_strftime_def)

lemma example_no_pattern_main:
  "main example_strftime (example_args\<lparr>date_string := []\<rparr>) example_fs =
     ([Print '':'', Print ''  - a.txt'', Print ''  - b.txt'',
       Rename ''d/a.txt'' ''d/a.txt'', Rename ''d/b.txt'' ''d/b.txt''],
      example_fs, None)"
  by (simp add: main_unfold preview_pass_def move_pass_def scan_def example_args_def example_files
        group_by_date_def example_no_pattern_time_strs)
     (simp add: make_folder_def fs_eval os_rename_def example_fs_def Let_def)

theorem move_places_files_witness:
  "parent_closed (nodes example_fs) \<and> \<not> simulation example_args \<and>
   get_file_list example_fs (folder_path example_args) = ([], Inr [''a.txt'', ''b.txt'']) \<and>
   snd (snd (main example_strftime example_args example_fs)) = None \<and>
   path_isfile (fst (snd (main example_strftime example_args example_fs))) ''d/202401/a.txt'' \<and>
   \<not> path_isfile (fst (snd (main example_strftime example_args example_fs))) ''d/a.txt'' \<and>
   path_isfile (fst (snd (main example_strftime example_args example_fs))) ''d/202402/b.txt'' \<and>
   \<not> path_isfile (fst (snd (main example_strftime example_args example_fs))) ''d/b.txt''"
proof -
  obtain evs fs' where run: "main example_strftime example_args example_fs = (evs, fs', None)"
    using example_run_result by (cases "main example_strftime example_args example_fs") auto
  have pwd: "folder_path example_args = ''d''" and fmt: "date_string example_args = ''%Y%m''"
    and flag: "\<not> simulation example_args"
    by (simp_all add: example_args_def)
  have target: "resolve example_fs (folder_path example_args) = Some [''d'']"
    "nodes example_fs [''d''] = Some (Dir 0 [''a.txt'', ''.hid'', ''b.txt'', ''sub''])"
    by (simp_all add: pwd example_resolve_d) (simp add: example_fs_def)
  have names: "distinct [''a.txt'', ''.hid'', ''b.txt'', ''sub'']"
    "list_all valid_name [''a.txt'', ''.hid'', ''b.txt'', ''sub'']"
    by (simp_all add: valid_name_def)
  have files: "get_file_list example_fs (folder_path example_args) = ([], Inr [''a.txt'', ''b.txt''])"
    by (simp add: pwd example_files)
  have keys: "\<forall>f\<in>set [''a.txt'', ''b.txt'']. \<forall>k.
      get_file_time_str example_strftime example_fs (folder_path example_args) f
        (date_string example_args) = Inr k \<longrightarrow> valid_name k"
    by (auto simp: pwd fmt example_time_strs valid_name_def)
  from move_places_files [OF target names example_parent_closed flag run files keys]
  have "path_isfile fs' (path_join (path_join ''d'' ''202401'') ''a.txt'') \<and>
      \<not> path_isfile fs' (path_join ''d'' ''a.txt'') \<and>
      path_isfile fs' (path_join (path_join ''d'' ''202402'') ''b.txt'') \<and>
      \<not> path_isfile fs' (path_join ''d'' ''b.txt'')"
    by (simp add: pwd fmt example_time_strs)
  then have "path_isfile fs' ''d/202401/a.txt'' \<and> \<not> path_isfile fs' ''d/a.txt'' \<and>
      path_isfile fs' ''d/202402/b.txt'' \<and> \<not> path_isfile fs' ''d/b.txt''"
    by (simp add: path_join_def)
  with run files flag example_parent_closed show ?thesis
    by simp
qed

theorem move_places_files_counterexample:
  "\<not> simulation (example_args\<lparr>date_string := []\<rparr>) \<and>
   get_file_list example_fs (folder_path (example_args\<lparr>date_string := []\<rparr>)) =
     ([], Inr [''a.txt'', ''b.txt'']) \<and>
   get_file_time_str example_strftime example_fs ''d'' ''a.txt'' [] = Inr [] \<and>
   main example_strftime (example_args\<lparr>date_string := []\<rparr>) example_fs =
     ([Print '':'', Print ''  - a.txt'', Print ''  - b.txt'',
       Rename ''d/a.txt'' ''d/a.txt'', Rename ''d/b.txt'' ''d/b.txt''],
      example_fs, None) \<and>
   path_isfile (fst (snd (main example_strftime (example_args\<lparr>date_string := []\<rparr>) example_fs)))
     (path_join ''d'' ''a.txt'')"
proof -
  have "path_isfile example_fs (path_join ''d'' ''a.txt'')"
    by (simp add: path_isfile_def example_lookup_a)
  moreover have "get_file_list example_fs (folder_path (example_args\<lparr>date_string := []\<rparr>)) =
      ([], Inr [''a.txt'', ''b.txt''])"
    by (simp add: example_args_def example_files)
  ultimately show ?thesis
    by (simp add: example_no_pattern_main example_no_pattern_time_strs)
       (simp add: example_args_def)
qed

end
